theory Spec2Isabelle
  imports Complex_Main "HOL-Library.Log_Nat" "HOL-Library.Code_Target_Nat"
begin

section \<open>Python values used by the order sizing job\<close>

subsection \<open>Floats\<close>

text \<open>
  A Python \<^verbatim>\<open>float\<close> is an IEEE 754 binary64 value. A finite non-zero value and
  positive zero are \<open>Finite q\<close> with \<open>q\<close> the exact rational value; negative zero, the
  two infinities and not-a-number are constructors of their own. Every arithmetic
  result is the exact rational result rounded to the nearest representable value,
  ties to even (\<open>round_double\<close>).
\<close>

datatype pyfloat = Finite rat | NegZero | PosInf | NegInf | NaN

datatype pyexn = ValueError | ZeroDivisionError

definition pow2 :: "int \<Rightarrow> rat" where
  "pow2 e = (if 0 \<le> e then 2 ^ nat e else 1 / 2 ^ nat (- e))"

definition floor_log2 :: "rat \<Rightarrow> int" where
  \<comment> \<open>for \<open>q > 0\<close>: the \<open>e\<close> with \<open>2^e \<le> q < 2^(e+1)\<close>\<close>
  "floor_log2 q =
     (let (n, d) = quotient_of q; e0 = bitlen n - bitlen d
      in if pow2 e0 \<le> q then e0 else e0 - 1)"

definition round_half_even :: "rat \<Rightarrow> int" where
  "round_half_even q =
     (let f = \<lfloor>q\<rfloor>; r = q - of_int f
      in if r < 1 / 2 then f
         else if 1 / 2 < r then f + 1
         else if even f then f else f + 1)"

definition signed_zero :: "bool \<Rightarrow> pyfloat" where
  "signed_zero neg = (if neg then NegZero else Finite 0)"

definition signed_inf :: "bool \<Rightarrow> pyfloat" where
  "signed_inf neg = (if neg then NegInf else PosInf)"

definition round_double :: "bool \<Rightarrow> rat \<Rightarrow> pyfloat" where
  \<comment> \<open>sign and exact magnitude \<open>q \<ge> 0\<close> to the nearest binary64 value: 53 significant
      bits, least exponent of a unit in the last place \<open>-1074\<close>; the rounded magnitude
      \<open>m * 2^u\<close> overflows when it reaches \<open>2^1024\<close>, that is when \<open>bitlen m + u > 1024\<close>\<close>
  "round_double neg q =
     (if q = 0 then signed_zero neg
      else let u = max (floor_log2 q - 52) (- 1074);
               m = round_half_even (q / pow2 u)
           in if 1024 < bitlen m + u then signed_inf neg
              else if m = 0 then signed_zero neg
              else Finite (if neg then - (of_int m * pow2 u) else of_int m * pow2 u))"

definition float_lit :: "rat \<Rightarrow> pyfloat" where
  \<comment> \<open>a non-negative decimal literal of the source text, such as \<^verbatim>\<open>0.05\<close>\<close>
  "float_lit q = round_double False q"

fun is_nan :: "pyfloat \<Rightarrow> bool" where
  "is_nan NaN = True"
| "is_nan _ = False"

fun is_inf :: "pyfloat \<Rightarrow> bool" where
  "is_inf PosInf = True"
| "is_inf NegInf = True"
| "is_inf _ = False"

fun is_zero :: "pyfloat \<Rightarrow> bool" where
  "is_zero (Finite q) = (q = 0)"
| "is_zero NegZero = True"
| "is_zero _ = False"

fun sign_bit :: "pyfloat \<Rightarrow> bool" where
  "sign_bit (Finite q) = (q < 0)"
| "sign_bit NegZero = True"
| "sign_bit NegInf = True"
| "sign_bit _ = False"

fun magnitude :: "pyfloat \<Rightarrow> rat" where
  "magnitude (Finite q) = \<bar>q\<bar>"
| "magnitude _ = 0"

fun finite_value :: "pyfloat \<Rightarrow> rat" where
  "finite_value (Finite q) = q"
| "finite_value _ = 0"

text \<open>Comparisons: false whenever an operand is not-a-number; the two zeros are equal.\<close>

fun py_lt :: "pyfloat \<Rightarrow> pyfloat \<Rightarrow> bool" where
  "py_lt NaN _ = False"
| "py_lt _ NaN = False"
| "py_lt PosInf _ = False"
| "py_lt _ PosInf = True"
| "py_lt _ NegInf = False"
| "py_lt NegInf _ = True"
| "py_lt a b = (finite_value a < finite_value b)"

fun py_le :: "pyfloat \<Rightarrow> pyfloat \<Rightarrow> bool" where
  "py_le NaN _ = False"
| "py_le _ NaN = False"
| "py_le _ PosInf = True"
| "py_le PosInf _ = False"
| "py_le NegInf _ = True"
| "py_le _ NegInf = False"
| "py_le a b = (finite_value a \<le> finite_value b)"

definition py_gt :: "pyfloat \<Rightarrow> pyfloat \<Rightarrow> bool" where
  "py_gt a b = py_lt b a"

definition py_mul :: "pyfloat \<Rightarrow> pyfloat \<Rightarrow> pyfloat" where
  "py_mul a b =
     (if is_nan a \<or> is_nan b then NaN
      else if is_inf a \<or> is_inf b then
        (if is_zero a \<or> is_zero b then NaN else signed_inf (sign_bit a \<noteq> sign_bit b))
      else round_double (sign_bit a \<noteq> sign_bit b) (magnitude a * magnitude b))"

definition py_truediv :: "pyfloat \<Rightarrow> pyfloat \<Rightarrow> pyexn + pyfloat" where
  \<comment> \<open>\<^verbatim>\<open>a / b\<close>: a zero divisor raises, whatever the dividend\<close>
  "py_truediv a b =
     (if is_zero b then Inl ZeroDivisionError
      else if is_nan a \<or> is_nan b then Inr NaN
      else if is_inf a then
        (if is_inf b then Inr NaN else Inr (signed_inf (sign_bit a \<noteq> sign_bit b)))
      else if is_inf b then Inr (signed_zero (sign_bit a \<noteq> sign_bit b))
      else Inr (round_double (sign_bit a \<noteq> sign_bit b) (magnitude a / magnitude b)))"

definition py_round2 :: "pyfloat \<Rightarrow> pyfloat" where
  \<comment> \<open>\<^verbatim>\<open>round(x, 2)\<close>: the exact value rounded half-even to two decimals, then to the
      nearest float; infinities, not-a-number and zeros round to themselves\<close>
  "py_round2 x =
     (case x of
        Finite q \<Rightarrow> round_double (q < 0) (of_int (round_half_even (\<bar>q\<bar> * 100)) / 100)
      | _ \<Rightarrow> x)"

subsection \<open>Strings\<close>

text \<open>
  A Python \<^verbatim>\<open>str\<close> is a sequence of Unicode code points, here natural numbers.
  \<open>ascii\<close> reads an ASCII literal as such a sequence.
\<close>

type_synonym pystr = "nat list"

definition ascii :: "string \<Rightarrow> pystr" where
  "ascii s = map of_char s"

text \<open>
  Two tables of the interpreter's Unicode database change with its version and are
  taken as a parameter: the decimal digit value of a code point from 128 on
  (\<^verbatim>\<open>Py_UNICODE_TODECIMAL\<close>, with values from 0 to 9) and its full uppercase mapping.
  Below 128 both are fixed in the definitions that follow.
\<close>

record unicode_tables =
  to_decimal :: "nat \<Rightarrow> nat option"
  to_upper_full :: "nat \<Rightarrow> nat list"

definition py_isspace :: "nat \<Rightarrow> bool" where
  \<comment> \<open>the code points that \<^verbatim>\<open>str.isspace\<close> accepts and \<^verbatim>\<open>str.strip()\<close> removes\<close>
  "py_isspace c =
     (c \<in> set [9, 10, 11, 12, 13, 28, 29, 30, 31, 32, 133, 160, 5760,
                8232, 8233, 8239, 8287, 12288]
      \<or> 8192 \<le> c \<and> c \<le> 8202)"

definition str_strip :: "pystr \<Rightarrow> pystr" where
  "str_strip s = rev (dropWhile py_isspace (rev (dropWhile py_isspace s)))"

definition str_replace_percent :: "pystr \<Rightarrow> pystr" where
  \<comment> \<open>\<^verbatim>\<open>value.replace("%", "")\<close>\<close>
  "str_replace_percent s = filter (\<lambda>c. c \<noteq> 37) s"

definition upper_char :: "unicode_tables \<Rightarrow> nat \<Rightarrow> nat list" where
  "upper_char U c =
     (if c < 128 then [if 97 \<le> c \<and> c \<le> 122 then c - 32 else c]
      else to_upper_full U c)"

definition str_upper :: "unicode_tables \<Rightarrow> pystr \<Rightarrow> pystr" where
  "str_upper U s = concat (map (upper_char U) s)"

subsection \<open>The conversion \<^verbatim>\<open>float(str)\<close>\<close>

text \<open>
  The built-in conversion first maps a string that is not pure ASCII to ASCII
  (Unicode spaces to a blank, Unicode decimal digits to ASCII digits, and it stops with
  a question mark at the first other code point from 127 on), removes the C white
  space at both ends, checks and removes the underscores, and reads what is left as
  \<^verbatim>\<open>[sign] (digits ["." [digits]] | "." digits) [("e"|"E") [sign] digits]\<close> or as
  \<^verbatim>\<open>[sign] ("inf" | "infinity" | "nan")\<close> in any letter case. The whole text must be used
  up; the value is the decimal value correctly rounded. Anything else is a
  \<^verbatim>\<open>ValueError\<close>. (The limit of \<open>10^9\<close> digits of the C routine is left out.)
\<close>

definition c_isspace :: "nat \<Rightarrow> bool" where
  "c_isspace c = (9 \<le> c \<and> c \<le> 13 \<or> c = 32)"

definition is_digit :: "nat \<Rightarrow> bool" where
  "is_digit c = (48 \<le> c \<and> c \<le> 57)"

fun to_ascii :: "unicode_tables \<Rightarrow> pystr \<Rightarrow> pystr" where
  "to_ascii U [] = []"
| "to_ascii U (c # cs) =
     (if c < 127 then c # to_ascii U cs
      else if py_isspace c then 32 # to_ascii U cs
      else (case (if c = 127 then None else to_decimal U c) of
              None \<Rightarrow> [63]
            | Some d \<Rightarrow> (48 + d) # to_ascii U cs))"

definition transform_decimal_and_space :: "unicode_tables \<Rightarrow> pystr \<Rightarrow> pystr" where
  "transform_decimal_and_space U s = (if list_all (\<lambda>c. c < 128) s then s else to_ascii U s)"

definition c_strip :: "pystr \<Rightarrow> pystr" where
  "c_strip s = rev (dropWhile c_isspace (rev (dropWhile c_isspace s)))"

fun strip_underscores :: "nat \<Rightarrow> pystr \<Rightarrow> pystr option" where
  \<comment> \<open>an underscore only between two digits; the first argument is the previous character\<close>
  "strip_underscores prev [] = (if prev = 95 then None else Some [])"
| "strip_underscores prev (c # cs) =
     (if c = 95 then (if is_digit prev then strip_underscores c cs else None)
      else if prev = 95 \<and> \<not> is_digit c then None
      else map_option ((#) c) (strip_underscores c cs))"

definition digits_value :: "pystr \<Rightarrow> nat" where
  "digits_value ds = foldl (\<lambda>a c. 10 * a + (c - 48)) 0 ds"

definition pow10 :: "int \<Rightarrow> rat" where
  "pow10 e = (if 0 \<le> e then 10 ^ nat e else 1 / 10 ^ nat (- e))"

definition parse_sign :: "pystr \<Rightarrow> bool \<times> pystr" where
  "parse_sign s =
     (case s of
        [] \<Rightarrow> (False, [])
      | c # cs \<Rightarrow> if c = 45 then (True, cs) else if c = 43 then (False, cs) else (False, s))"

definition parse_exponent :: "pystr \<Rightarrow> int \<times> pystr" where
  \<comment> \<open>the exponent and the rest; an \<^verbatim>\<open>e\<close> that no digit follows is not read\<close>
  "parse_exponent s =
     (case s of
        [] \<Rightarrow> (0, [])
      | c # cs \<Rightarrow>
          if c = 101 \<or> c = 69 then
            (let (neg, r) = parse_sign cs; ds = takeWhile is_digit r
             in if ds = [] then (0, s)
                else (if neg then - int (digits_value ds) else int (digits_value ds),
                      dropWhile is_digit r))
          else (0, s))"

definition parse_decimal :: "pystr \<Rightarrow> (pyfloat \<times> pystr) option" where
  \<comment> \<open>the value read and the rest; \<open>None\<close> when the mantissa has no digit\<close>
  "parse_decimal s =
     (let (neg, r0) = parse_sign s;
          ip = takeWhile is_digit r0;
          r1 = dropWhile is_digit r0;
          (fp, r2) = (case r1 of
                        [] \<Rightarrow> ([], [])
                      | c # cs \<Rightarrow> if c = 46 then (takeWhile is_digit cs, dropWhile is_digit cs)
                                  else ([], r1))
      in if ip = [] \<and> fp = [] then None
         else let (e, r3) = parse_exponent r2
              in Some (round_double neg
                         (of_nat (digits_value (ip @ fp)) * pow10 (e - int (length fp))),
                       r3))"

definition lower_ascii :: "nat \<Rightarrow> nat" where
  "lower_ascii c = (if 65 \<le> c \<and> c \<le> 90 then c + 32 else c)"

definition match_ci :: "string \<Rightarrow> pystr \<Rightarrow> bool" where
  \<comment> \<open>the text starts with the lower-case word, in any letter case\<close>
  "match_ci w s = (map lower_ascii (take (length w) s) = ascii w)"

definition parse_inf_or_nan :: "pystr \<Rightarrow> (pyfloat \<times> pystr) option" where
  "parse_inf_or_nan s =
     (let (neg, r) = parse_sign s
      in if match_ci ''inf'' r then
           (let r' = drop 3 r
            in Some (signed_inf neg, if match_ci ''inity'' r' then drop 5 r' else r'))
         else if match_ci ''nan'' r then Some (NaN, drop 3 r)
         else None)"

definition string_to_double :: "pystr \<Rightarrow> pyexn + pyfloat" where
  "string_to_double s =
     (case (case parse_decimal s of None \<Rightarrow> parse_inf_or_nan s | Some r \<Rightarrow> Some r) of
        Some (x, []) \<Rightarrow> Inr x
      | _ \<Rightarrow> Inl ValueError)"

definition float_of_str :: "unicode_tables \<Rightarrow> pystr \<Rightarrow> pyexn + pyfloat" where
  "float_of_str U s =
     (case strip_underscores 0 (c_strip (transform_decimal_and_space U s)) of
        None \<Rightarrow> Inl ValueError
      | Some t \<Rightarrow> string_to_double t)"

section \<open>Helpers\<close>

definition safe_float :: "unicode_tables \<Rightarrow> pystr option \<Rightarrow> pyexn + pyfloat option" where
  \<comment> \<open>\<open>Inl\<close> is an exception that leaves the function; only \<^verbatim>\<open>ValueError\<close> is caught\<close>
  "safe_float U v =
     (case v of
        None \<Rightarrow> Inr None
      | Some v0 \<Rightarrow>
          (let v1 = str_strip v0
           in if v1 = [] then Inr None
              else (case float_of_str U (str_replace_percent v1) of
                      Inr x \<Rightarrow> Inr (Some x)
                    | Inl e \<Rightarrow> if e = ValueError then Inr None else Inl e)))"

section \<open>Core allocation logic\<close>

definition ICON_MULTIPLIERS :: "pystr \<rightharpoonup> pyfloat" where
  \<comment> \<open>the keys are the single code points U+1F48E, U+1F4A5, U+1F680, U+2728, U+1F4CA\<close>
  "ICON_MULTIPLIERS =
     map_of [([128142], Finite 1),
             ([128165], float_lit (9 / 10)),
             ([128640], float_lit (8 / 10)),
             ([10024], float_lit (7 / 10)),
             ([128202], float_lit (6 / 10))]"

definition get_bracket_pct :: "pyfloat \<Rightarrow> pyfloat option" where
  "get_bracket_pct percent_down =
     (if py_lt percent_down (Finite 0) then None
      else if py_le (Finite 0) percent_down \<and> py_le percent_down (Finite 25)
        then Some (float_lit (5 / 100))
      else if py_lt (Finite 25) percent_down \<and> py_le percent_down (Finite 50)
        then Some (float_lit (10 / 100))
      else if py_lt (Finite 50) percent_down \<and> py_le percent_down (Finite 75)
        then Some (float_lit (15 / 100))
      else Some (float_lit (20 / 100)))"

definition sentiment_multiplier :: "unicode_tables \<Rightarrow> pystr option \<Rightarrow> pyexn + pyfloat" where
  \<comment> \<open>the value of \<^verbatim>\<open>sentiment_mult\<close> after the block "Sentiment multiplier"\<close>
  "sentiment_multiplier U sentiment_raw =
     (if sentiment_raw \<noteq> None \<and> str_strip (the sentiment_raw) \<noteq> [] then
        (case safe_float U sentiment_raw of
           Inl e \<Rightarrow> Inl e
         | Inr s_val \<Rightarrow>
             if s_val \<noteq> None \<and> py_gt (the s_val) (Finite 0) then Inr (the s_val)
             else Inr (float_lit (1 / 10)))
      else Inr (float_lit (1 / 10)))"

definition compute_order_notional ::
  "unicode_tables \<Rightarrow> pyfloat \<Rightarrow> pyfloat \<Rightarrow> pystr option \<Rightarrow> pyfloat \<Rightarrow> pyfloat \<Rightarrow> pystr option
     \<Rightarrow> pyexn + pyfloat option" where
  "compute_order_notional U buying_power percent_down icon long_ma price sentiment_raw =
     (case get_bracket_pct percent_down of
        None \<Rightarrow> Inr None
      | Some bracket_pct \<Rightarrow>
          (let icon' = str_strip (case icon of None \<Rightarrow> [] | Some i \<Rightarrow> i)
           in case ICON_MULTIPLIERS icon' of
                None \<Rightarrow> Inr None
              | Some icon_mult \<Rightarrow>
                  if py_le price (Finite 0) then Inr None
                  else (case py_truediv long_ma price of
                          Inl e \<Rightarrow> Inl e
                        | Inr ma_price_factor \<Rightarrow>
                            (case sentiment_multiplier U sentiment_raw of
                               Inl e \<Rightarrow> Inl e
                             | Inr sentiment_mult \<Rightarrow>
                                 (let base_alloc = py_mul buying_power bracket_pct
                                  in Inr (Some (py_mul (py_mul (py_mul base_alloc icon_mult)
                                                          ma_price_factor) sentiment_mult)))))))"

section \<open>Main bot logic\<close>

text \<open>
  The run keeps the set of symbols seen and the count of orders submitted. Every row
  writes exactly one line about its fate to the log; \<open>events\<close> is that log, oldest
  first. An order carries the symbol and the rounded notional.
\<close>

datatype row_event =
    NoSymbol
  | DuplicateSymbol pystr
  | MissingNumeric pystr
  | NotionalNone pystr
  | BelowMinimum pystr pyfloat
  | OrderSubmitted pystr pyfloat
  | OrderFailed pystr pyfloat

record run_state =
  seen_symbols :: "pystr set"
  orders_submitted :: nat
  events :: "row_event list"

text \<open>
  The brokerage is outside the program: for the row number, the symbol and the rounded
  notional it tells whether building and submitting the order returned (\<open>True\<close>) or
  raised an \<^verbatim>\<open>Exception\<close> inside the \<^verbatim>\<open>try\<close> block (\<open>False\<close>).
\<close>

type_synonym broker = "nat \<Rightarrow> pystr \<Rightarrow> pyfloat \<Rightarrow> bool"

definition cell :: "pystr list \<Rightarrow> nat \<Rightarrow> pystr" where
  "cell row idx = (if idx < length row then row ! idx else [])"

definition MIN_NOTIONAL :: pyfloat where
  "MIN_NOTIONAL = Finite 1"

definition log_event :: "row_event \<Rightarrow> run_state \<Rightarrow> run_state" where
  "log_event ev st = st\<lparr>events := events st @ [ev]\<rparr>"

definition process_row ::
  "unicode_tables \<Rightarrow> broker \<Rightarrow> pyfloat \<Rightarrow> nat \<Rightarrow> pystr list \<Rightarrow> run_state \<Rightarrow> pyexn + run_state" where
  \<comment> \<open>one pass through the body of the loop; \<open>Inl\<close> is an exception that leaves the loop\<close>
  "process_row U submit_order buying_power row_idx row st =
     (let symbol = str_upper U (str_strip (cell row 0));
          price_str = cell row 1;
          pct_down_str = cell row 2;
          long_ma_str = cell row 9;
          icon = cell row 15;
          sentiment_str = cell row 16
      in if symbol = [] then Inr (log_event NoSymbol st)
         else if symbol \<in> seen_symbols st then Inr (log_event (DuplicateSymbol symbol) st)
         else
           (case safe_float U (Some price_str) of Inl e \<Rightarrow> Inl e | Inr price \<Rightarrow>
           (case safe_float U (Some pct_down_str) of Inl e \<Rightarrow> Inl e | Inr pct_down \<Rightarrow>
           (case safe_float U (Some long_ma_str) of Inl e \<Rightarrow> Inl e | Inr long_ma \<Rightarrow>
              if price = None \<or> pct_down = None \<or> long_ma = None
              then Inr (log_event (MissingNumeric symbol) st)
              else
                (case compute_order_notional U buying_power (the pct_down) (Some icon)
                        (the long_ma) (the price) (Some sentiment_str) of
                   Inl e \<Rightarrow> Inl e
                 | Inr None \<Rightarrow> Inr (log_event (NotionalNone symbol) st)
                 | Inr (Some notional) \<Rightarrow>
                     if py_lt notional MIN_NOTIONAL
                     then Inr (log_event (BelowMinimum symbol notional) st)
                     else
                       (let notional_rounded = py_round2 notional
                        in if submit_order row_idx symbol notional_rounded
                           then Inr (log_event (OrderSubmitted symbol notional_rounded)
                                  (st\<lparr>orders_submitted := orders_submitted st + 1,
                                      seen_symbols := insert symbol (seen_symbols st)\<rparr>))
                           else Inr (log_event (OrderFailed symbol notional_rounded) st)))))))"

fun run_rows ::
  "unicode_tables \<Rightarrow> broker \<Rightarrow> pyfloat \<Rightarrow> nat \<Rightarrow> pystr list list \<Rightarrow> run_state \<Rightarrow> pyexn + run_state" where
  "run_rows U submit_order buying_power row_idx [] st = Inr st"
| "run_rows U submit_order buying_power row_idx (row # rows) st =
     (case process_row U submit_order buying_power row_idx row st of
        Inl e \<Rightarrow> Inl e
      | Inr st' \<Rightarrow> run_rows U submit_order buying_power (row_idx + 1) rows st')"

definition initial_state :: run_state where
  "initial_state = \<lparr>seen_symbols = {}, orders_submitted = 0, events = []\<rparr>"

definition run_bot ::
  "unicode_tables \<Rightarrow> broker \<Rightarrow> pyfloat \<Rightarrow> pystr list list \<Rightarrow> pyexn + run_state" where
  \<comment> \<open>\<open>rows\<close> is the sheet with its header row, \<open>buying_power\<close> the account's figure\<close>
  "run_bot U submit_order buying_power rows =
     (if rows = [] \<or> length rows < 2 then Inr initial_state
      else run_rows U submit_order buying_power 2 (tl rows) initial_state)"

section \<open>Auxiliary notions and example inputs\<close>

definition reaches_division :: "pyfloat \<Rightarrow> pystr option \<Rightarrow> pyfloat \<Rightarrow> bool" where
  \<comment> \<open>the three checks of \<open>compute_order_notional\<close> before \<^verbatim>\<open>long_ma / price\<close> let the call through\<close>
  "reaches_division percent_down icon price =
     (get_bracket_pct percent_down \<noteq> None
      \<and> ICON_MULTIPLIERS (str_strip (case icon of None \<Rightarrow> [] | Some i \<Rightarrow> i)) \<noteq> None
      \<and> \<not> py_le price (Finite 0))"

definition example_tables :: unicode_tables where
  \<comment> \<open>tables that know no decimal digit and no letter beyond ASCII; the examples are ASCII\<close>
  "example_tables = \<lparr>to_decimal = (\<lambda>c. None), to_upper_full = (\<lambda>c. [c])\<rparr>"

definition gem :: pystr where
  \<comment> \<open>the icon with multiplier 1.0\<close>
  "gem = [128142]"

text \<open>
  The body of the loop, read without the state: the normalized symbol of a row; what the
  parsing, the notional and the minimum size decide for it (\<open>Inl\<close> the line logged for
  the skip, \<open>Inr\<close> the rounded notional of the order); the line a row logs for a given set
  of seen symbols; the state after the row. They are shown below to agree with
  \<open>process_row\<close> and \<open>run_rows\<close>.
\<close>

definition symbol_of :: "unicode_tables \<Rightarrow> pystr list \<Rightarrow> pystr" where
  "symbol_of U row = str_upper U (str_strip (cell row 0))"

definition row_check :: "unicode_tables \<Rightarrow> pyfloat \<Rightarrow> pystr list \<Rightarrow> row_event + pyfloat" where
  "row_check U buying_power row =
     (case safe_float U (Some (cell row 1)) of Inr (Some price) \<Rightarrow>
       (case safe_float U (Some (cell row 2)) of Inr (Some pct_down) \<Rightarrow>
         (case safe_float U (Some (cell row 9)) of Inr (Some long_ma) \<Rightarrow>
           (case compute_order_notional U buying_power pct_down (Some (cell row 15)) long_ma price
                   (Some (cell row 16)) of
              Inr (Some notional) \<Rightarrow>
                if py_lt notional MIN_NOTIONAL
                then Inl (BelowMinimum (symbol_of U row) notional)
                else Inr (py_round2 notional)
            | _ \<Rightarrow> Inl (NotionalNone (symbol_of U row)))
          | _ \<Rightarrow> Inl (MissingNumeric (symbol_of U row)))
        | _ \<Rightarrow> Inl (MissingNumeric (symbol_of U row)))
      | _ \<Rightarrow> Inl (MissingNumeric (symbol_of U row)))"

definition row_outcome ::
  "unicode_tables \<Rightarrow> broker \<Rightarrow> pyfloat \<Rightarrow> nat \<Rightarrow> pystr list \<Rightarrow> pystr set \<Rightarrow> row_event" where
  "row_outcome U submit_order buying_power row_idx row seen =
     (if symbol_of U row = [] then NoSymbol
      else if symbol_of U row \<in> seen then DuplicateSymbol (symbol_of U row)
      else (case row_check U buying_power row of
              Inl ev \<Rightarrow> ev
            | Inr n \<Rightarrow> if submit_order row_idx (symbol_of U row) n
                       then OrderSubmitted (symbol_of U row) n
                       else OrderFailed (symbol_of U row) n))"

definition row_step ::
  "unicode_tables \<Rightarrow> broker \<Rightarrow> pyfloat \<Rightarrow> nat \<Rightarrow> pystr list \<Rightarrow> run_state \<Rightarrow> run_state" where
  "row_step U submit_order buying_power row_idx row st =
     (case row_outcome U submit_order buying_power row_idx row (seen_symbols st) of
        OrderSubmitted s n \<Rightarrow>
          log_event (OrderSubmitted s n)
            (st\<lparr>orders_submitted := orders_submitted st + 1,
                seen_symbols := insert s (seen_symbols st)\<rparr>)
      | ev \<Rightarrow> log_event ev st)"

fun run_steps ::
  "unicode_tables \<Rightarrow> broker \<Rightarrow> pyfloat \<Rightarrow> nat \<Rightarrow> pystr list list \<Rightarrow> run_state \<Rightarrow> run_state" where
  "run_steps U submit_order buying_power row_idx [] st = st"
| "run_steps U submit_order buying_power row_idx (row # rows) st =
     run_steps U submit_order buying_power (row_idx + 1) rows
       (row_step U submit_order buying_power row_idx row st)"

text \<open>Example rows: ticker, price, percent-down, long moving average, icon, sentiment.\<close>

definition sheet_row :: "string \<Rightarrow> string \<Rightarrow> string \<Rightarrow> string \<Rightarrow> pystr \<Rightarrow> string \<Rightarrow> pystr list" where
  "sheet_row ticker price pct_down long_ma icon sentiment =
     [ascii ticker, ascii price, ascii pct_down, [], [], [], [], [], [], ascii long_ma,
      [], [], [], [], [], icon, ascii sentiment]"

definition plain_row :: "pystr list" where
  "plain_row = sheet_row ''AAA'' ''100'' ''10'' ''100'' gem ''1''"

definition broker_ok :: broker where
  "broker_ok row_idx symbol notional = True"

definition broker_fails_at_2 :: broker where
  "broker_fails_at_2 row_idx symbol notional = (row_idx \<noteq> 2)"

definition dup_sheet :: "pystr list list" where
  "dup_sheet =
     [[ascii ''Ticker''],
      sheet_row ''aaa'' ''100'' ''10'' ''110'' gem ''2'',
      sheet_row '' AAA '' ''100'' ''10%'' ''110'' gem ''2'',
      sheet_row ''AAA'' ''100'' ''10'' ''110'' gem ''2'']"

section \<open>The functions return\<close>

lemma float_of_str_raises: "float_of_str U s = Inl e \<Longrightarrow> e = ValueError"
  by (auto simp: float_of_str_def string_to_double_def
           split: option.splits prod.splits list.splits)

lemma safe_float_returns: "\<exists>r. safe_float U v = Inr r"
proof (cases v)
  case None
  then show ?thesis by (simp add: safe_float_def)
next
  case (Some v0)
  show ?thesis
  proof (cases "float_of_str U (str_replace_percent (str_strip v0))")
    case (Inl e)
    then have "e = ValueError" by (rule float_of_str_raises)
    with Inl Some show ?thesis by (simp add: safe_float_def Let_def)
  next
    case (Inr x)
    with Some show ?thesis by (simp add: safe_float_def Let_def)
  qed
qed

lemma not_le_zero_nonzero: "\<not> py_le p (Finite 0) \<Longrightarrow> \<not> is_zero p"
  by (cases p) auto

lemma not_le_zero_cases: "\<not> py_le p (Finite 0) \<Longrightarrow> py_gt p (Finite 0) \<or> is_nan p"
  by (cases p) (auto simp: py_gt_def)

lemma py_truediv_returns: "\<not> is_zero b \<Longrightarrow> \<exists>x. py_truediv a b = Inr x"
  by (simp add: py_truediv_def)

lemma sentiment_multiplier_returns: "\<exists>m. sentiment_multiplier U s = Inr m"
proof -
  obtain r where "safe_float U s = Inr r" using safe_float_returns by blast
  then show ?thesis by (simp add: sentiment_multiplier_def)
qed

lemma compute_order_notional_eq:
  assumes "get_bracket_pct percent_down = Some bracket_pct"
    and "ICON_MULTIPLIERS (str_strip (case icon of None \<Rightarrow> [] | Some i \<Rightarrow> i)) = Some icon_mult"
    and "\<not> py_le price (Finite 0)"
    and "py_truediv long_ma price = Inr ma_price_factor"
    and "sentiment_multiplier U sentiment_raw = Inr sentiment_mult"
  shows "compute_order_notional U bp percent_down icon long_ma price sentiment_raw =
           Inr (Some (py_mul (py_mul (py_mul (py_mul bp bracket_pct) icon_mult)
                        ma_price_factor) sentiment_mult))"
  using assms by (simp add: compute_order_notional_def Let_def)

lemma reaches_division_value:
  assumes "reaches_division percent_down icon price"
  shows "\<exists>n. compute_order_notional U bp percent_down icon long_ma price sentiment_raw
               = Inr (Some n)"
proof -
  from assms obtain b m where b: "get_bracket_pct percent_down = Some b"
    and m: "ICON_MULTIPLIERS (str_strip (case icon of None \<Rightarrow> [] | Some i \<Rightarrow> i)) = Some m"
    and p: "\<not> py_le price (Finite 0)"
    by (auto simp: reaches_division_def)
  from p obtain x where x: "py_truediv long_ma price = Inr x"
    using py_truediv_returns not_le_zero_nonzero by blast
  obtain sm where sm: "sentiment_multiplier U sentiment_raw = Inr sm"
    using sentiment_multiplier_returns by blast
  show ?thesis using compute_order_notional_eq [OF b m p x sm] by blast
qed

lemma not_reaches_division_None:
  assumes "\<not> reaches_division percent_down icon price"
  shows "compute_order_notional U bp percent_down icon long_ma price sentiment_raw = Inr None"
  using assms
  by (auto simp: reaches_division_def compute_order_notional_def Let_def split: option.splits)

lemma compute_order_notional_returns:
  "\<exists>r. compute_order_notional U bp percent_down icon long_ma price sentiment_raw = Inr r"
  using reaches_division_value not_reaches_division_None by (metis (full_types))

section \<open>Allocation bracket\<close>

text \<open>
  Claim C1. A percent-down below 0 has no bracket; from 0 to 25 the bracket is 0.05,
  above 25 up to 50 it is 0.10, above 50 up to 75 it is 0.15, above 75 it is 0.20. The
  boundary values 25, 50 and 75 fall into the lower bracket.
\<close>

theorem C1_get_bracket_pct:
  "(py_lt percent_down (Finite 0) \<longrightarrow> get_bracket_pct percent_down = None)
   \<and> (py_le (Finite 0) percent_down \<and> py_le percent_down (Finite 25)
        \<longrightarrow> get_bracket_pct percent_down = Some (float_lit (5 / 100)))
   \<and> (py_lt (Finite 25) percent_down \<and> py_le percent_down (Finite 50)
        \<longrightarrow> get_bracket_pct percent_down = Some (float_lit (10 / 100)))
   \<and> (py_lt (Finite 50) percent_down \<and> py_le percent_down (Finite 75)
        \<longrightarrow> get_bracket_pct percent_down = Some (float_lit (15 / 100)))
   \<and> (py_gt percent_down (Finite 75)
        \<longrightarrow> get_bracket_pct percent_down = Some (float_lit (20 / 100)))
   \<and> get_bracket_pct (Finite 25) = Some (float_lit (5 / 100))
   \<and> get_bracket_pct (Finite 50) = Some (float_lit (10 / 100))
   \<and> get_bracket_pct (Finite 75) = Some (float_lit (15 / 100))"
  by (cases percent_down) (simp_all add: get_bracket_pct_def py_gt_def)

theorem C1_witness:
  "py_lt (Finite (- 1)) (Finite 0) \<and> get_bracket_pct (Finite (- 1)) = None
   \<and> py_le (Finite 0) (Finite 10) \<and> py_le (Finite 10) (Finite 25)
   \<and> get_bracket_pct (Finite 10) = Some (float_lit (5 / 100))
   \<and> py_lt (Finite 25) (Finite 30) \<and> py_le (Finite 30) (Finite 50)
   \<and> get_bracket_pct (Finite 30) = Some (float_lit (10 / 100))
   \<and> py_lt (Finite 50) (Finite 60) \<and> py_le (Finite 60) (Finite 75)
   \<and> get_bracket_pct (Finite 60) = Some (float_lit (15 / 100))
   \<and> py_gt PosInf (Finite 75) \<and> get_bracket_pct PosInf = Some (float_lit (20 / 100))"
  using C1_get_bracket_pct [of "Finite (- 1)"] C1_get_bracket_pct [of "Finite 10"]
    C1_get_bracket_pct [of "Finite 30"] C1_get_bracket_pct [of "Finite 60"]
    C1_get_bracket_pct [of PosInf]
  by (simp add: py_gt_def)

section \<open>Notional calculator\<close>

text \<open>
  Claim C6. Whatever the other inputs are, when the icon with the white space at its
  ends removed (an absent icon counts as the empty text) is not one of the five keys
  of the icon table, \<open>compute_order_notional\<close> returns \<^verbatim>\<open>None\<close>.
\<close>

theorem C6_unknown_icon:
  assumes "str_strip (case icon of None \<Rightarrow> [] | Some i \<Rightarrow> i)
             \<notin> {[128142], [128165], [128640], [10024], [128202]}"
  shows "compute_order_notional U bp percent_down icon long_ma price sentiment_raw = Inr None"
proof -
  from assms
  have "ICON_MULTIPLIERS (str_strip (case icon of None \<Rightarrow> [] | Some i \<Rightarrow> i)) = None"
    by (simp add: ICON_MULTIPLIERS_def)
  then show ?thesis
    by (simp add: compute_order_notional_def Let_def split: option.splits)
qed

theorem C6_witness:
  "str_strip (case Some (ascii '' x '') of None \<Rightarrow> [] | Some i \<Rightarrow> i)
     \<notin> {[128142], [128165], [128640], [10024], [128202]}
   \<and> compute_order_notional example_tables (Finite 100000) (Finite 10) (Some (ascii '' x ''))
        (Finite 110) (Finite 100) (Some (ascii ''2'')) = Inr None"
proof -
  have h: "str_strip (case Some (ascii '' x '') of None \<Rightarrow> [] | Some i \<Rightarrow> i)
     \<notin> {[128142], [128165], [128640], [10024], [128202]}"
    by code_simp
  show ?thesis using h C6_unknown_icon [OF h] by simp
qed

section \<open>Numeric parser\<close>



section \<open>Notional calculator: formula, sentiment default, division guard\<close>


text \<open>
  Claim C3. When the bracket is found, the icon is in the table and the price passes
  the check, \<open>compute_order_notional\<close> returns the product, taken from left to right,
  of buying power, bracket fraction, icon multiplier, long moving average over price,
  and sentiment multiplier. With buying power 100000, percent-down 10, the icon of
  multiplier 1.0, long moving average 110, price 100 and sentiment \<^verbatim>\<open>"2"\<close> the result
  is 11000.
\<close>

theorem C3_notional_formula:
  "(get_bracket_pct percent_down = Some bracket_pct
    \<and> ICON_MULTIPLIERS (str_strip (case icon of None \<Rightarrow> [] | Some i \<Rightarrow> i)) = Some icon_mult
    \<and> \<not> py_le price (Finite 0)
    \<longrightarrow> (\<exists>ma_price_factor sentiment_mult.
           py_truediv long_ma price = Inr ma_price_factor
         \<and> sentiment_multiplier U sentiment_raw = Inr sentiment_mult
         \<and> compute_order_notional U bp percent_down icon long_ma price sentiment_raw =
             Inr (Some (py_mul (py_mul (py_mul (py_mul bp bracket_pct) icon_mult)
                          ma_price_factor) sentiment_mult))))
   \<and> compute_order_notional U (Finite 100000) (Finite 10) (Some gem) (Finite 110) (Finite 100)
        (Some (ascii ''2'')) = Inr (Some (Finite 11000))"
proof -
  have ex: "compute_order_notional U (Finite 100000) (Finite 10) (Some gem) (Finite 110)
              (Finite 100) (Some (ascii ''2'')) = Inr (Some (Finite 11000))"
    by code_simp
  have gen: "\<exists>ma_price_factor sentiment_mult.
           py_truediv long_ma price = Inr ma_price_factor
         \<and> sentiment_multiplier U sentiment_raw = Inr sentiment_mult
         \<and> compute_order_notional U bp percent_down icon long_ma price sentiment_raw =
             Inr (Some (py_mul (py_mul (py_mul (py_mul bp bracket_pct) icon_mult)
                          ma_price_factor) sentiment_mult))"
    if b: "get_bracket_pct percent_down = Some bracket_pct"
      and m: "ICON_MULTIPLIERS (str_strip (case icon of None \<Rightarrow> [] | Some i \<Rightarrow> i)) = Some icon_mult"
      and p: "\<not> py_le price (Finite 0)"
  proof -
    from p obtain x where x: "py_truediv long_ma price = Inr x"
      using py_truediv_returns not_le_zero_nonzero by blast
    obtain sm where sm: "sentiment_multiplier U sentiment_raw = Inr sm"
      using sentiment_multiplier_returns by blast
    show ?thesis using compute_order_notional_eq [OF b m p x sm] x sm by blast
  qed
  from ex gen show ?thesis by blast
qed

theorem C3_witness:
  "get_bracket_pct (Finite 10) = Some (float_lit (5 / 100))
   \<and> ICON_MULTIPLIERS (str_strip (case Some gem of None \<Rightarrow> [] | Some i \<Rightarrow> i)) = Some (Finite 1)
   \<and> \<not> py_le (Finite 100) (Finite 0)
   \<and> compute_order_notional example_tables (Finite 100000) (Finite 10) (Some gem) (Finite 110)
        (Finite 100) (Some (ascii ''2'')) =
       Inr (Some (py_mul (py_mul (py_mul (py_mul (Finite 100000) (float_lit (5 / 100))) (Finite 1))
                    (float_lit (11 / 10))) (Finite 2)))"
proof -
  have h1: "get_bracket_pct (Finite 10) = Some (float_lit (5 / 100))" by code_simp
  have h2: "ICON_MULTIPLIERS (str_strip (case Some gem of None \<Rightarrow> [] | Some i \<Rightarrow> i)) = Some (Finite 1)"
    by code_simp
  have h3: "\<not> py_le (Finite 100) (Finite 0)" by simp
  have d: "py_truediv (Finite 110) (Finite 100) = Inr (float_lit (11 / 10))" by code_simp
  have sm: "sentiment_multiplier example_tables (Some (ascii ''2'')) = Inr (Finite 2)" by code_simp
  from C3_notional_formula [of "Finite 10" "float_lit (5 / 100)" "Some gem" "Finite 1" "Finite 100"
      "Finite 110" example_tables "Some (ascii ''2'')" "Finite 100000"] h1 h2 h3
  obtain f s where "py_truediv (Finite 110) (Finite 100) = Inr f"
    and "sentiment_multiplier example_tables (Some (ascii ''2'')) = Inr s"
    and "compute_order_notional example_tables (Finite 100000) (Finite 10) (Some gem) (Finite 110)
        (Finite 100) (Some (ascii ''2'')) =
       Inr (Some (py_mul (py_mul (py_mul (py_mul (Finite 100000) (float_lit (5 / 100))) (Finite 1))
                    f) s))"
    by blast
  with d sm h1 h2 h3 show ?thesis by simp
qed



text \<open>
  Claim C8, as amended. \<open>compute_order_notional\<close> returns a number or \<^verbatim>\<open>None\<close> on every
  input and raises nothing. Every price that is at most 0 returns \<^verbatim>\<open>None\<close> before the
  division. The division is reached exactly when the result is a number, and then the
  price is above 0 or is not-a-number; it is never a zero, so that the division
  returns.
\<close>

theorem C8_division_guard:
  "(\<exists>r. compute_order_notional U bp percent_down icon long_ma price sentiment_raw = Inr r)
   \<and> (py_le price (Finite 0)
        \<longrightarrow> compute_order_notional U bp percent_down icon long_ma price sentiment_raw = Inr None)
   \<and> (reaches_division percent_down icon price
        \<longleftrightarrow> compute_order_notional U bp percent_down icon long_ma price sentiment_raw \<noteq> Inr None)
   \<and> (reaches_division percent_down icon price
        \<longrightarrow> (py_gt price (Finite 0) \<or> is_nan price) \<and> \<not> is_zero price
          \<and> (\<exists>x. py_truediv long_ma price = Inr x))"
proof -
  have a: "\<exists>r. compute_order_notional U bp percent_down icon long_ma price sentiment_raw = Inr r"
    by (rule compute_order_notional_returns)
  have b: "compute_order_notional U bp percent_down icon long_ma price sentiment_raw = Inr None"
    if "py_le price (Finite 0)"
    by (rule not_reaches_division_None) (simp add: reaches_division_def that)
  have c: "reaches_division percent_down icon price
        \<longleftrightarrow> compute_order_notional U bp percent_down icon long_ma price sentiment_raw \<noteq> Inr None"
    using reaches_division_value [of percent_down icon price U bp long_ma sentiment_raw]
      not_reaches_division_None [of percent_down icon price U bp long_ma sentiment_raw]
    by auto
  have d: "(py_gt price (Finite 0) \<or> is_nan price) \<and> \<not> is_zero price
          \<and> (\<exists>x. py_truediv long_ma price = Inr x)"
    if "reaches_division percent_down icon price"
  proof -
    from that have p: "\<not> py_le price (Finite 0)" by (simp add: reaches_division_def)
    then show ?thesis
      using not_le_zero_cases not_le_zero_nonzero py_truediv_returns by blast
  qed
  from a b c d show ?thesis by blast
qed

theorem C8_witness:
  "py_le (Finite 0) (Finite 0)
   \<and> compute_order_notional example_tables (Finite 100000) (Finite 10) (Some gem) (Finite 110)
        (Finite 0) None = Inr None
   \<and> reaches_division (Finite 10) (Some gem) (Finite 100)
   \<and> py_gt (Finite 100) (Finite 0)
   \<and> (\<exists>x. py_truediv (Finite 110) (Finite 100) = Inr x)"
proof -
  have h1: "py_le (Finite 0) (Finite 0)" by simp
  have h2: "reaches_division (Finite 10) (Some gem) (Finite 100)" by code_simp
  have h3: "py_gt (Finite 100) (Finite 0)" by (simp add: py_gt_def)
  from C8_division_guard [of example_tables "Finite 100000" "Finite 10" "Some gem" "Finite 110"
      "Finite 0" None] h1
  have r1: "compute_order_notional example_tables (Finite 100000) (Finite 10) (Some gem)
              (Finite 110) (Finite 0) None = Inr None" by blast
  from C8_division_guard [of example_tables "Finite 100000" "Finite 10" "Some gem" "Finite 110"
      "Finite 100" None] h2
  have r2: "\<exists>x. py_truediv (Finite 110) (Finite 100) = Inr x" by blast
  from h1 h2 h3 r1 r2 show ?thesis by blast
qed

text \<open>
  The stronger statement, that the division is reached only with a price above 0,
  fails for a price that is not-a-number, which the check \<^verbatim>\<open>price <= 0\<close> lets through.
\<close>

theorem C8_counterexample:
  "reaches_division (Finite 10) (Some gem) NaN
   \<and> \<not> py_gt NaN (Finite 0)
   \<and> compute_order_notional example_tables (Finite 100000) (Finite 10) (Some gem) (Finite 110)
        NaN None = Inr (Some NaN)"
  by code_simp

section \<open>The row loop\<close>

subsection \<open>The loop body never raises and is the stateless reading\<close>

lemma safe_float_not_Inl [simp]: "safe_float U v \<noteq> Inl e"
  using safe_float_returns [of U v] by auto

lemma compute_order_notional_not_Inl [simp]:
  "compute_order_notional U bp percent_down icon long_ma price sentiment_raw \<noteq> Inl e"
  using compute_order_notional_returns [of U bp percent_down icon long_ma price sentiment_raw]
  by auto

lemma row_check_Inl:
  "row_check U bp row = Inl ev \<Longrightarrow>
     ev = MissingNumeric (symbol_of U row) \<or> ev = NotionalNone (symbol_of U row)
     \<or> (\<exists>n. ev = BelowMinimum (symbol_of U row) n)"
  by (auto simp: row_check_def split: sum.splits option.splits if_splits)

lemma process_row_step:
  "process_row U B bp idx row st = Inr (row_step U B bp idx row st)"
proof -
  obtain p where p: "safe_float U (Some (cell row 1)) = Inr p"
    using safe_float_returns by blast
  obtain d where d: "safe_float U (Some (cell row 2)) = Inr d"
    using safe_float_returns by blast
  obtain m where m: "safe_float U (Some (cell row 9)) = Inr m"
    using safe_float_returns by blast
  show ?thesis
  proof (cases "p = None \<or> d = None \<or> m = None")
    case True
    then show ?thesis
      using p d m
      by (auto simp: process_row_def row_step_def row_outcome_def row_check_def symbol_of_def
            Let_def split: option.splits)
  next
    case False
    then obtain pv dv mv where v: "p = Some pv" "d = Some dv" "m = Some mv" by auto
    obtain r where r: "compute_order_notional U bp dv (Some (cell row 15)) mv pv
        (Some (cell row 16)) = Inr r"
      using compute_order_notional_returns by blast
    show ?thesis
      using p d m v r
      by (cases r)
         (auto simp: process_row_def row_step_def row_outcome_def row_check_def symbol_of_def
            Let_def)
  qed
qed

lemma run_rows_steps:
  "run_rows U B bp idx rows st = Inr (run_steps U B bp idx rows st)"
  by (induction rows arbitrary: idx st) (simp_all add: process_row_step)

subsection \<open>The log and the seen symbols along a run\<close>

lemma row_outcome_submitted:
  "row_outcome U B bp idx row seen = OrderSubmitted s n \<Longrightarrow>
     s = symbol_of U row \<and> s \<noteq> [] \<and> s \<notin> seen \<and> row_check U bp row = Inr n \<and> B idx s n"
  by (auto simp: row_outcome_def split: if_splits sum.splits dest: row_check_Inl)

lemma row_outcome_failed:
  "row_outcome U B bp idx row seen = OrderFailed s n \<Longrightarrow>
     s = symbol_of U row \<and> s \<noteq> [] \<and> s \<notin> seen \<and> row_check U bp row = Inr n \<and> \<not> B idx s n"
  by (auto simp: row_outcome_def split: if_splits sum.splits dest: row_check_Inl)

lemma row_step_events:
  "events (row_step U B bp idx row st) =
     events st @ [row_outcome U B bp idx row (seen_symbols st)]"
  by (simp add: row_step_def log_event_def split: row_event.splits)

lemma row_step_seen:
  "seen_symbols (row_step U B bp idx row st) =
     (case row_outcome U B bp idx row (seen_symbols st) of
        OrderSubmitted s n \<Rightarrow> insert s (seen_symbols st)
      | _ \<Rightarrow> seen_symbols st)"
  by (simp add: row_step_def log_event_def split: row_event.splits)

lemma row_step_count:
  "orders_submitted (row_step U B bp idx row st) =
     (case row_outcome U B bp idx row (seen_symbols st) of
        OrderSubmitted s n \<Rightarrow> orders_submitted st + 1
      | _ \<Rightarrow> orders_submitted st)"
  by (simp add: row_step_def log_event_def split: row_event.splits)

lemma run_steps_append:
  "run_steps U B bp idx (xs @ ys) st =
     run_steps U B bp (idx + length xs) ys (run_steps U B bp idx xs st)"
  by (induction xs arbitrary: idx st) simp_all

lemma run_steps_events:
  "\<exists>evs. events (run_steps U B bp idx rows st) = events st @ evs \<and> length evs = length rows"
proof (induction rows arbitrary: idx st)
  case Nil
  then show ?case by simp
next
  case (Cons row rows)
  from Cons.IH [of "idx + 1" "row_step U B bp idx row st"]
  obtain evs where "events (run_steps U B bp (idx + 1) rows (row_step U B bp idx row st)) =
      events (row_step U B bp idx row st) @ evs" and "length evs = length rows"
    by blast
  then show ?case
    by (simp add: row_step_events)
qed

lemma run_steps_events_length:
  "length (events (run_steps U B bp idx rows st)) = length (events st) + length rows"
  using run_steps_events [of U B bp idx rows st] by auto

lemma run_steps_take_Suc:
  assumes "j < length rows"
  shows "run_steps U B bp idx (take (Suc j) rows) st =
           row_step U B bp (idx + j) (rows ! j) (run_steps U B bp idx (take j rows) st)"
proof -
  from assms have "take (Suc j) rows = take j rows @ [rows ! j]"
    by (rule take_Suc_conv_app_nth)
  then show ?thesis
    using assms by (simp add: run_steps_append)
qed

lemma run_steps_events_take:
  assumes "j \<le> length rows"
  shows "events (run_steps U B bp idx (take j rows) st) =
           take (length (events st) + j) (events (run_steps U B bp idx rows st))"
proof -
  have "run_steps U B bp idx rows st =
          run_steps U B bp (idx + length (take j rows)) (drop j rows)
            (run_steps U B bp idx (take j rows) st)"
    using run_steps_append [of U B bp idx "take j rows" "drop j rows" st] by simp
  moreover obtain evs where
    "events (run_steps U B bp (idx + length (take j rows)) (drop j rows)
            (run_steps U B bp idx (take j rows) st)) =
       events (run_steps U B bp idx (take j rows) st) @ evs"
    using run_steps_events by blast
  ultimately have "events (run_steps U B bp idx rows st) =
      events (run_steps U B bp idx (take j rows) st) @ evs" by simp
  moreover have "length (events (run_steps U B bp idx (take j rows) st)) =
      length (events st) + j"
    using assms by (simp add: run_steps_events_length)
  ultimately show ?thesis by simp
qed

lemma run_steps_seen:
  "seen_symbols (run_steps U B bp idx rows st) =
     seen_symbols st \<union>
     {s. \<exists>n. OrderSubmitted s n
              \<in> set (drop (length (events st)) (events (run_steps U B bp idx rows st)))}"
proof (induction rows arbitrary: idx st)
  case Nil
  then show ?case by simp
next
  case (Cons row rows)
  let ?st1 = "row_step U B bp idx row st"
  let ?ev = "row_outcome U B bp idx row (seen_symbols st)"
  let ?E = "events (run_steps U B bp (idx + 1) rows ?st1)"
  obtain evs where evs: "?E = events ?st1 @ evs"
    using run_steps_events by blast
  then have E: "?E = events st @ ?ev # evs" by (simp add: row_step_events)
  have d1: "drop (length (events ?st1)) ?E = evs" using evs by simp
  have d0: "drop (length (events st)) ?E = ?ev # evs" using E by simp
  have "seen_symbols (run_steps U B bp idx (row # rows) st) =
          seen_symbols ?st1 \<union> {s. \<exists>n. OrderSubmitted s n \<in> set evs}"
    using Cons.IH [of "idx + 1" ?st1] d1 by simp
  also have "\<dots> = seen_symbols st \<union> {s. \<exists>n. OrderSubmitted s n \<in> set (?ev # evs)}"
    by (cases ?ev) (auto simp: row_step_seen)
  finally show ?case using d0 by simp
qed

lemma in_set_take_nth:
  assumes "j \<le> length xs"
  shows "x \<in> set (take j xs) \<longleftrightarrow> (\<exists>k<j. xs ! k = x)"
proof
  assume "x \<in> set (take j xs)"
  then obtain k where "k < length (take j xs)" "take j xs ! k = x"
    by (auto simp: in_set_conv_nth)
  then show "\<exists>k<j. xs ! k = x" by auto
next
  assume "\<exists>k<j. xs ! k = x"
  then obtain k where k: "k < j" "xs ! k = x" by blast
  with assms have "k < length (take j xs)" "take j xs ! k = x" by auto
  then show "x \<in> set (take j xs)" by (metis nth_mem)
qed

lemma trace_event:
  assumes j: "j < length rows"
  shows "events (run_steps U B bp idx rows initial_state) ! j =
           row_outcome U B bp (idx + j) (rows ! j)
             {s. \<exists>k<j. \<exists>n. events (run_steps U B bp idx rows initial_state) ! k
                               = OrderSubmitted s n}"
proof -
  let ?E = "events (run_steps U B bp idx rows initial_state)"
  let ?stj = "run_steps U B bp idx (take j rows) initial_state"
  have len: "length ?E = length rows"
    by (simp add: run_steps_events_length initial_state_def)
  have Ej: "events ?stj = take j ?E"
    using run_steps_events_take [of j rows U B bp idx initial_state] j
    by (simp add: initial_state_def)
  have ESj: "events (run_steps U B bp idx (take (Suc j) rows) initial_state) = take (Suc j) ?E"
    using run_steps_events_take [of "Suc j" rows U B bp idx initial_state] j
    by (simp add: initial_state_def)
  have "take (Suc j) ?E = take j ?E @ [row_outcome U B bp (idx + j) (rows ! j) (seen_symbols ?stj)]"
    using ESj Ej by (simp add: run_steps_take_Suc [OF j] row_step_events)
  moreover have "take (Suc j) ?E = take j ?E @ [?E ! j]"
    using j len by (simp add: take_Suc_conv_app_nth)
  ultimately have ev: "?E ! j = row_outcome U B bp (idx + j) (rows ! j) (seen_symbols ?stj)"
    by simp
  have "seen_symbols ?stj = {s. \<exists>n. OrderSubmitted s n \<in> set (take j ?E)}"
    using run_steps_seen [of U B bp idx "take j rows" initial_state] Ej
    by (simp add: initial_state_def)
  also have "\<dots> = {s. \<exists>k<j. \<exists>n. ?E ! k = OrderSubmitted s n}"
    using j len by (auto simp: in_set_take_nth)
  finally show ?thesis using ev by simp
qed

lemma run_steps_invariant:
  assumes "finite (seen_symbols st)" and "orders_submitted st = card (seen_symbols st)"
  shows "finite (seen_symbols (run_steps U B bp idx rows st))
         \<and> orders_submitted (run_steps U B bp idx rows st)
             = card (seen_symbols (run_steps U B bp idx rows st))"
  using assms
proof (induction rows arbitrary: idx st)
  case Nil
  then show ?case by simp
next
  case (Cons row rows)
  let ?st1 = "row_step U B bp idx row st"
  have "finite (seen_symbols ?st1) \<and> orders_submitted ?st1 = card (seen_symbols ?st1)"
  proof (cases "row_outcome U B bp idx row (seen_symbols st)")
    case (OrderSubmitted s n)
    then have "s \<notin> seen_symbols st" using row_outcome_submitted by blast
    with OrderSubmitted Cons.prems show ?thesis
      by (simp add: row_step_seen row_step_count)
  qed (use Cons.prems in \<open>simp_all add: row_step_seen row_step_count\<close>)
  then show ?case using Cons.IH [of ?st1 "idx + 1"] by simp
qed

section \<open>Row pipeline\<close>

lemma le_one_not_lt: "py_le (Finite 1) n \<Longrightarrow> \<not> py_lt n (Finite 1)"
  by (cases n) auto

text \<open>
  Claim C5. The minimum size is tested on the notional before rounding: a row whose
  notional is below 1.0 is skipped, a row whose notional is 1.0 or more is kept, and the
  order that is submitted carries the notional rounded to two decimals.
\<close>

theorem C5_minimum_notional:
  assumes "str_upper U (str_strip (cell row 0)) = symbol"
    and "symbol \<noteq> []"
    and "symbol \<notin> seen_symbols st"
    and "safe_float U (Some (cell row 1)) = Inr (Some price)"
    and "safe_float U (Some (cell row 2)) = Inr (Some pct_down)"
    and "safe_float U (Some (cell row 9)) = Inr (Some long_ma)"
    and "compute_order_notional U bp pct_down (Some (cell row 15)) long_ma price
           (Some (cell row 16)) = Inr (Some notional)"
  shows "(py_lt notional (Finite 1) \<longrightarrow>
            process_row U B bp idx row st = Inr (log_event (BelowMinimum symbol notional) st))
       \<and> (py_le (Finite 1) notional \<longrightarrow>
            process_row U B bp idx row st =
              Inr (if B idx symbol (py_round2 notional)
                   then log_event (OrderSubmitted symbol (py_round2 notional))
                          (st\<lparr>orders_submitted := orders_submitted st + 1,
                              seen_symbols := insert symbol (seen_symbols st)\<rparr>)
                   else log_event (OrderFailed symbol (py_round2 notional)) st))"
  using assms
  by (auto simp: process_row_def Let_def MIN_NOTIONAL_def dest: le_one_not_lt)

lemma plain_row_facts:
  "str_upper example_tables (str_strip (cell plain_row 0)) = ascii ''AAA''"
  "ascii ''AAA'' \<noteq> []"
  "ascii ''AAA'' \<notin> seen_symbols initial_state"
  "safe_float example_tables (Some (cell plain_row 1)) = Inr (Some (Finite 100))"
  "safe_float example_tables (Some (cell plain_row 2)) = Inr (Some (Finite 10))"
  "safe_float example_tables (Some (cell plain_row 9)) = Inr (Some (Finite 100))"
  by code_simp+

theorem C5_witness:
  "py_lt (Finite (2249548013871563 / 2251799813685248)) (Finite 1)
   \<and> py_round2 (Finite (2249548013871563 / 2251799813685248)) = Finite 1
   \<and> process_row example_tables broker_ok (float_lit (1998 / 100)) 2 plain_row initial_state =
       Inr (log_event (BelowMinimum (ascii ''AAA'') (Finite (2249548013871563 / 2251799813685248)))
              initial_state)
   \<and> py_le (Finite 1) (Finite 1)
   \<and> process_row example_tables broker_ok (Finite 20) 2 plain_row initial_state =
       Inr (log_event (OrderSubmitted (ascii ''AAA'') (Finite 1))
              (initial_state\<lparr>orders_submitted := orders_submitted initial_state + 1,
                   seen_symbols := insert (ascii ''AAA'') (seen_symbols initial_state)\<rparr>))
   \<and> py_le (Finite 1) (Finite (7505924318957037 / 4503599627370496))
   \<and> process_row example_tables broker_ok (float_lit (33333 / 1000)) 2 plain_row initial_state =
       Inr (log_event (OrderSubmitted (ascii ''AAA'') (float_lit (167 / 100)))
              (initial_state\<lparr>orders_submitted := orders_submitted initial_state + 1,
                   seen_symbols := insert (ascii ''AAA'') (seen_symbols initial_state)\<rparr>))"
proof -
  have n1: "compute_order_notional example_tables (float_lit (1998 / 100)) (Finite 10)
              (Some (cell plain_row 15)) (Finite 100) (Finite 100) (Some (cell plain_row 16))
            = Inr (Some (Finite (2249548013871563 / 2251799813685248)))"
    by code_simp
  have n2: "compute_order_notional example_tables (Finite 20) (Finite 10)
              (Some (cell plain_row 15)) (Finite 100) (Finite 100) (Some (cell plain_row 16))
            = Inr (Some (Finite 1))"
    by code_simp
  have n3: "compute_order_notional example_tables (float_lit (33333 / 1000)) (Finite 10)
              (Some (cell plain_row 15)) (Finite 100) (Finite 100) (Some (cell plain_row 16))
            = Inr (Some (Finite (7505924318957037 / 4503599627370496)))"
    by code_simp
  have l1: "py_lt (Finite (2249548013871563 / 2251799813685248)) (Finite 1)" by simp
  have l2: "py_le (Finite 1) (Finite 1)" by simp
  have l3: "py_le (Finite 1) (Finite (7505924318957037 / 4503599627370496))" by simp
  have r1: "py_round2 (Finite (2249548013871563 / 2251799813685248)) = Finite 1" by code_simp
  have r2: "py_round2 (Finite 1) = Finite 1" by code_simp
  have r3: "py_round2 (Finite (7505924318957037 / 4503599627370496)) = float_lit (167 / 100)"
    by code_simp
  note f = plain_row_facts
  from C5_minimum_notional [OF f(1) f(2) f(3) f(4) f(5) f(6) n1, of broker_ok 2] l1
  have a: "process_row example_tables broker_ok (float_lit (1998 / 100)) 2 plain_row initial_state =
       Inr (log_event (BelowMinimum (ascii ''AAA'') (Finite (2249548013871563 / 2251799813685248)))
              initial_state)" by blast
  from C5_minimum_notional [OF f(1) f(2) f(3) f(4) f(5) f(6) n2, of broker_ok 2] l2
  have b: "process_row example_tables broker_ok (Finite 20) 2 plain_row initial_state =
       Inr (log_event (OrderSubmitted (ascii ''AAA'') (Finite 1))
              (initial_state\<lparr>orders_submitted := orders_submitted initial_state + 1,
                   seen_symbols := insert (ascii ''AAA'') (seen_symbols initial_state)\<rparr>))"
    by (simp add: broker_ok_def r2)
  from C5_minimum_notional [OF f(1) f(2) f(3) f(4) f(5) f(6) n3, of broker_ok 2] l3
  have c: "process_row example_tables broker_ok (float_lit (33333 / 1000)) 2 plain_row initial_state =
       Inr (log_event (OrderSubmitted (ascii ''AAA'') (float_lit (167 / 100)))
              (initial_state\<lparr>orders_submitted := orders_submitted initial_state + 1,
                   seen_symbols := insert (ascii ''AAA'') (seen_symbols initial_state)\<rparr>))"
    by (simp add: broker_ok_def r3)
  from l1 r1 a l2 b l3 c show ?thesis by blast
qed

lemma run_bot_steps:
  "run_bot U B bp sheet = Inr (run_steps U B bp 2 (tl sheet) initial_state)"
proof (cases sheet)
  case Nil
  then show ?thesis by (simp add: run_bot_def)
next
  case (Cons header data)
  then show ?thesis by (cases data) (simp_all add: run_bot_def run_rows_steps)
qed

lemma row_outcome_not_duplicate:
  "symbol_of U row \<notin> seen \<Longrightarrow> row_outcome U B bp idx row seen \<noteq> DuplicateSymbol s"
  by (auto simp: row_outcome_def split: sum.splits dest: row_check_Inl)

lemma process_row_event:
  assumes "process_row U B bp idx row st = Inr st1" and "events st1 = events st @ [ev]"
  shows "row_outcome U B bp idx row (seen_symbols st) = ev \<and> st1 = row_step U B bp idx row st"
proof -
  from assms(1) have s1: "st1 = row_step U B bp idx row st" by (simp add: process_row_step)
  with assms(2) have "events st @ [row_outcome U B bp idx row (seen_symbols st)] = events st @ [ev]"
    by (simp add: row_step_events)
  with s1 show ?thesis by simp
qed

text \<open>
  Claim C9. A failure of the order submission for one row is caught inside the loop and
  never ends the run: the run over any rows returns, with exactly one log line for each
  row, so that every later row is processed and no row is processed twice. A row whose
  submission fails changes nothing but the log.
\<close>

theorem C9_failure_isolated:
  "(\<exists>st'. run_rows U B bp idx rows st = Inr st'
          \<and> length (events st') = length (events st) + length rows)
   \<and> (\<exists>st'. run_bot U B bp sheet = Inr st' \<and> length (events st') = length (tl sheet))
   \<and> (process_row U B bp idx row st = Inr st1 \<and> events st1 = events st @ [OrderFailed s n]
        \<longrightarrow> \<not> B idx s n
          \<and> st1 = log_event (OrderFailed s n) st
          \<and> run_rows U B bp idx (row # rest) st = run_rows U B bp (idx + 1) rest st1
          \<and> (\<exists>st'. run_rows U B bp idx (row # rest) st = Inr st'
                  \<and> length (events st') = length (events st1) + length rest))"
proof -
  have a: "\<exists>st'. run_rows U B bp idx rows st = Inr st'
          \<and> length (events st') = length (events st) + length rows"
    by (simp add: run_rows_steps run_steps_events_length)
  have b: "\<exists>st'. run_bot U B bp sheet = Inr st' \<and> length (events st') = length (tl sheet)"
    by (simp add: run_bot_steps run_steps_events_length initial_state_def)
  have c: "\<not> B idx s n
          \<and> st1 = log_event (OrderFailed s n) st
          \<and> run_rows U B bp idx (row # rest) st = run_rows U B bp (idx + 1) rest st1
          \<and> (\<exists>st'. run_rows U B bp idx (row # rest) st = Inr st'
                  \<and> length (events st') = length (events st1) + length rest)"
    if p: "process_row U B bp idx row st = Inr st1"
      and e: "events st1 = events st @ [OrderFailed s n]"
  proof -
    from process_row_event [OF p e]
    have o: "row_outcome U B bp idx row (seen_symbols st) = OrderFailed s n"
      and s1: "st1 = row_step U B bp idx row st" by simp_all
    from o have nb: "\<not> B idx s n" using row_outcome_failed by blast
    from o s1 have l: "st1 = log_event (OrderFailed s n) st" by (simp add: row_step_def)
    have r: "run_rows U B bp idx (row # rest) st = run_rows U B bp (idx + 1) rest st1"
      using p by simp
    have "\<exists>st'. run_rows U B bp (idx + 1) rest st1 = Inr st'
                  \<and> length (events st') = length (events st1) + length rest"
      by (simp add: run_rows_steps run_steps_events_length)
    then have x: "\<exists>st'. run_rows U B bp idx (row # rest) st = Inr st'
                  \<and> length (events st') = length (events st1) + length rest"
      by (simp only: r)
    show ?thesis by (intro conjI nb l r x)
  qed
  have c': "process_row U B bp idx row st = Inr st1 \<and> events st1 = events st @ [OrderFailed s n]
        \<longrightarrow> \<not> B idx s n
          \<and> st1 = log_event (OrderFailed s n) st
          \<and> run_rows U B bp idx (row # rest) st = run_rows U B bp (idx + 1) rest st1
          \<and> (\<exists>st'. run_rows U B bp idx (row # rest) st = Inr st'
                  \<and> length (events st') = length (events st1) + length rest)"
    by (intro impI, elim conjE, rule c)
  show ?thesis by (intro conjI a b c')
qed

lemma run_prefix_state:
  assumes k: "k \<le> length rows"
  shows "\<exists>st. run_rows U B bp idx (take k rows) initial_state = Inr st
           \<and> orders_submitted st = card (seen_symbols st)
           \<and> run_rows U B bp idx rows initial_state = run_rows U B bp (idx + k) (drop k rows) st"
proof -
  let ?st = "run_steps U B bp idx (take k rows) initial_state"
  have fin: "finite (seen_symbols initial_state)" by (simp add: initial_state_def)
  have eq0: "orders_submitted initial_state = card (seen_symbols initial_state)"
    by (simp add: initial_state_def)
  have inv: "orders_submitted ?st = card (seen_symbols ?st)"
    using run_steps_invariant [OF fin eq0] by blast
  have len: "length (take k rows) = k" using k by simp
  have "run_steps U B bp idx (take k rows @ drop k rows) initial_state =
        run_steps U B bp (idx + length (take k rows)) (drop k rows) ?st"
    by (rule run_steps_append)
  then have app: "run_steps U B bp idx rows initial_state =
        run_steps U B bp (idx + k) (drop k rows) ?st"
    by (simp only: len append_take_drop_id)
  have r1: "run_rows U B bp idx (take k rows) initial_state = Inr ?st" by (rule run_rows_steps)
  have r2: "run_rows U B bp idx rows initial_state = run_rows U B bp (idx + k) (drop k rows) ?st"
    by (simp only: run_rows_steps app)
  from r1 inv r2 show ?thesis by blast
qed

lemma process_row_updates:
  assumes p: "process_row U B bp idx row st = Inr st1"
  shows "(\<exists>s n. events st1 = events st @ [OrderSubmitted s n] \<and> s \<notin> seen_symbols st
              \<and> seen_symbols st1 = insert s (seen_symbols st)
              \<and> orders_submitted st1 = orders_submitted st + 1)
        \<or> ((\<forall>s n. events st1 \<noteq> events st @ [OrderSubmitted s n])
            \<and> seen_symbols st1 = seen_symbols st
            \<and> orders_submitted st1 = orders_submitted st)"
proof -
  let ?ev = "row_outcome U B bp idx row (seen_symbols st)"
  from p have s1: "st1 = row_step U B bp idx row st" by (simp add: process_row_step)
  have ev: "events st1 = events st @ [?ev]" unfolding s1 by (rule row_step_events)
  show ?thesis
  proof (cases "\<exists>s n. ?ev = OrderSubmitted s n")
    case True
    then obtain s n where o: "?ev = OrderSubmitted s n" by blast
    then have ns: "s \<notin> seen_symbols st" using row_outcome_submitted by blast
    have se: "seen_symbols st1 = insert s (seen_symbols st)"
      unfolding s1 row_step_seen o by simp
    have co: "orders_submitted st1 = orders_submitted st + 1"
      unfolding s1 row_step_count o by simp
    have "events st1 = events st @ [OrderSubmitted s n]" using ev o by simp
    with ns se co show ?thesis by blast
  next
    case False
    then have ne: "\<forall>s n. events st1 \<noteq> events st @ [OrderSubmitted s n]"
      using ev by simp
    have se: "seen_symbols st1 = seen_symbols st"
      unfolding s1 row_step_seen using False by (cases ?ev) simp_all
    have co: "orders_submitted st1 = orders_submitted st"
      unfolding s1 row_step_count using False by (cases ?ev) simp_all
    from ne se co show ?thesis by blast
  qed
qed

lemma failed_symbol_not_seen:
  assumes p: "process_row U B bp idx row st = Inr st1"
    and e: "events st1 = events st @ [OrderFailed s n]"
    and r2: "str_upper U (str_strip (cell row2 0)) = s"
  shows "s \<notin> seen_symbols st1
          \<and> (\<exists>st2 ev. process_row U B bp idx2 row2 st1 = Inr st2
                     \<and> events st2 = events st1 @ [ev] \<and> ev \<noteq> DuplicateSymbol s)"
proof -
  from process_row_event [OF p e]
  have o: "row_outcome U B bp idx row (seen_symbols st) = OrderFailed s n"
    and s1: "st1 = row_step U B bp idx row st" by simp_all
  from o have "s \<notin> seen_symbols st" using row_outcome_failed by blast
  moreover have "seen_symbols st1 = seen_symbols st"
    unfolding s1 row_step_seen o by simp
  ultimately have ns: "s \<notin> seen_symbols st1" by simp
  with r2 have "symbol_of U row2 \<notin> seen_symbols st1" by (simp add: symbol_of_def)
  then have nd: "row_outcome U B bp idx2 row2 (seen_symbols st1) \<noteq> DuplicateSymbol s"
    by (rule row_outcome_not_duplicate)
  have "process_row U B bp idx2 row2 st1 = Inr (row_step U B bp idx2 row2 st1)"
    by (rule process_row_step)
  moreover have "events (row_step U B bp idx2 row2 st1) =
      events st1 @ [row_outcome U B bp idx2 row2 (seen_symbols st1)]"
    by (rule row_step_events)
  ultimately have "\<exists>st2 ev. process_row U B bp idx2 row2 st1 = Inr st2
                     \<and> events st2 = events st1 @ [ev] \<and> ev \<noteq> DuplicateSymbol s"
    using nd by blast
  with ns show ?thesis by blast
qed

text \<open>
  Claim C10. After every row of a run the count of submitted orders is the number of
  seen symbols. A row either submits an order, and then adds its symbol, which was not
  seen, and adds one to the count, or it leaves both as they are. So the symbol of a
  failed submission is not seen, and a later row with that symbol is not skipped as a
  duplicate.
\<close>

theorem C10_count_equals_seen:
  "(k \<le> length rows \<longrightarrow>
      (\<exists>st. run_rows U B bp idx (take k rows) initial_state = Inr st
           \<and> orders_submitted st = card (seen_symbols st)
           \<and> run_rows U B bp idx rows initial_state = run_rows U B bp (idx + k) (drop k rows) st))
   \<and> (process_row U B bp idx row st = Inr st1 \<longrightarrow>
        (\<exists>s n. events st1 = events st @ [OrderSubmitted s n] \<and> s \<notin> seen_symbols st
              \<and> seen_symbols st1 = insert s (seen_symbols st)
              \<and> orders_submitted st1 = orders_submitted st + 1)
        \<or> ((\<forall>s n. events st1 \<noteq> events st @ [OrderSubmitted s n])
            \<and> seen_symbols st1 = seen_symbols st
            \<and> orders_submitted st1 = orders_submitted st))
   \<and> (process_row U B bp idx row st = Inr st1 \<and> events st1 = events st @ [OrderFailed s n]
       \<and> str_upper U (str_strip (cell row2 0)) = s
        \<longrightarrow> s \<notin> seen_symbols st1
          \<and> (\<exists>st2 ev. process_row U B bp idx2 row2 st1 = Inr st2
                     \<and> events st2 = events st1 @ [ev] \<and> ev \<noteq> DuplicateSymbol s))"
proof (intro conjI impI)
  assume "k \<le> length rows"
  then show "\<exists>st. run_rows U B bp idx (take k rows) initial_state = Inr st
           \<and> orders_submitted st = card (seen_symbols st)
           \<and> run_rows U B bp idx rows initial_state = run_rows U B bp (idx + k) (drop k rows) st"
    by (rule run_prefix_state)
next
  assume "process_row U B bp idx row st = Inr st1"
  then show "(\<exists>s n. events st1 = events st @ [OrderSubmitted s n] \<and> s \<notin> seen_symbols st
              \<and> seen_symbols st1 = insert s (seen_symbols st)
              \<and> orders_submitted st1 = orders_submitted st + 1)
        \<or> ((\<forall>s n. events st1 \<noteq> events st @ [OrderSubmitted s n])
            \<and> seen_symbols st1 = seen_symbols st
            \<and> orders_submitted st1 = orders_submitted st)"
    by (rule process_row_updates)
next
  assume h: "process_row U B bp idx row st = Inr st1 \<and> events st1 = events st @ [OrderFailed s n]
       \<and> str_upper U (str_strip (cell row2 0)) = s"
  then have p: "process_row U B bp idx row st = Inr st1"
    and e: "events st1 = events st @ [OrderFailed s n]"
    and r: "str_upper U (str_strip (cell row2 0)) = s" by simp_all
  from failed_symbol_not_seen [where ?idx2.0 = idx2, OF p e r]
  show "s \<notin> seen_symbols st1"
    and "\<exists>st2 ev. process_row U B bp idx2 row2 st1 = Inr st2
                     \<and> events st2 = events st1 @ [ev] \<and> ev \<noteq> DuplicateSymbol s"
    by simp_all
qed

section \<open>Deduplication\<close>

lemma decision_sound:
  assumes j: "j < length rows"
    and d: "events (run_steps U B bp idx rows initial_state) ! j = OrderSubmitted s n
            \<or> events (run_steps U B bp idx rows initial_state) ! j = OrderFailed s n"
  shows "symbol_of U (rows ! j) = s \<and> s \<noteq> [] \<and> row_check U bp (rows ! j) = Inr n
         \<and> \<not> (\<exists>k<j. \<exists>m. events (run_steps U B bp idx rows initial_state) ! k
                           = OrderSubmitted s m)"
proof -
  let ?E = "events (run_steps U B bp idx rows initial_state)"
  let ?S = "{s. \<exists>k<j. \<exists>n. ?E ! k = OrderSubmitted s n}"
  have t: "?E ! j = row_outcome U B bp (idx + j) (rows ! j) ?S"
    by (rule trace_event [OF j])
  from d have "s = symbol_of U (rows ! j) \<and> s \<noteq> [] \<and> s \<notin> ?S
      \<and> row_check U bp (rows ! j) = Inr n"
  proof
    assume "?E ! j = OrderSubmitted s n"
    with t have "row_outcome U B bp (idx + j) (rows ! j) ?S = OrderSubmitted s n" by simp
    from row_outcome_submitted [OF this] show ?thesis by blast
  next
    assume "?E ! j = OrderFailed s n"
    with t have "row_outcome U B bp (idx + j) (rows ! j) ?S = OrderFailed s n" by simp
    from row_outcome_failed [OF this] show ?thesis by blast
  qed
  then show ?thesis by blast
qed

lemma after_success:
  assumes ij: "i < j" and j: "j < length rows"
    and i: "events (run_steps U B bp idx rows initial_state) ! i = OrderSubmitted s n"
  shows "(\<forall>m. events (run_steps U B bp idx rows initial_state) ! j \<noteq> OrderSubmitted s m
            \<and> events (run_steps U B bp idx rows initial_state) ! j \<noteq> OrderFailed s m)
         \<and> (symbol_of U (rows ! j) = s
              \<longrightarrow> events (run_steps U B bp idx rows initial_state) ! j = DuplicateSymbol s)"
proof -
  let ?E = "events (run_steps U B bp idx rows initial_state)"
  let ?S = "{s. \<exists>k<j. \<exists>n. ?E ! k = OrderSubmitted s n}"
  from ij j have il: "i < length rows" by simp
  from decision_sound [OF il, of U B bp idx s n] i have ne: "s \<noteq> []" by simp
  from ij i have inS: "s \<in> ?S" by blast
  have nodec: "?E ! j \<noteq> OrderSubmitted s m \<and> ?E ! j \<noteq> OrderFailed s m" for m
  proof -
    have "\<not> (?E ! j = OrderSubmitted s m \<or> ?E ! j = OrderFailed s m)"
    proof
      assume "?E ! j = OrderSubmitted s m \<or> ?E ! j = OrderFailed s m"
      from decision_sound [OF j this] have "\<not> (\<exists>k<j. \<exists>m. ?E ! k = OrderSubmitted s m)"
        by simp
      with ij i show False by blast
    qed
    then show ?thesis by simp
  qed
  have dup: "?E ! j = DuplicateSymbol s" if "symbol_of U (rows ! j) = s"
  proof -
    have "?E ! j = row_outcome U B bp (idx + j) (rows ! j) ?S" by (rule trace_event [OF j])
    also have "\<dots> = DuplicateSymbol s"
      using that ne inS by (simp add: row_outcome_def)
    finally show ?thesis .
  qed
  from nodec dup show ?thesis by blast
qed

lemma first_qualifying:
  assumes j: "j < length rows"
    and sy: "symbol_of U (rows ! j) = s" and ne: "s \<noteq> []"
    and rc: "row_check U bp (rows ! j) = Inr n"
    and first: "\<forall>i<j. symbol_of U (rows ! i) = s \<longrightarrow> (\<forall>m. row_check U bp (rows ! i) \<noteq> Inr m)"
  shows "events (run_steps U B bp idx rows initial_state) ! j
           = (if B (idx + j) s n then OrderSubmitted s n else OrderFailed s n)
         \<and> (\<forall>k<j. \<forall>m. events (run_steps U B bp idx rows initial_state) ! k \<noteq> OrderSubmitted s m
                    \<and> events (run_steps U B bp idx rows initial_state) ! k \<noteq> OrderFailed s m)
         \<and> (B (idx + j) s n \<longrightarrow>
              (\<forall>k<length rows. k \<noteq> j \<longrightarrow>
                 (\<forall>m. events (run_steps U B bp idx rows initial_state) ! k \<noteq> OrderSubmitted s m
                    \<and> events (run_steps U B bp idx rows initial_state) ! k \<noteq> OrderFailed s m)))"
proof -
  let ?E = "events (run_steps U B bp idx rows initial_state)"
  let ?S = "{s. \<exists>k<j. \<exists>n. ?E ! k = OrderSubmitted s n}"
  have before: "?E ! k \<noteq> OrderSubmitted s m \<and> ?E ! k \<noteq> OrderFailed s m" if k: "k < j" for k m
  proof -
    have "\<not> (?E ! k = OrderSubmitted s m \<or> ?E ! k = OrderFailed s m)"
    proof
      assume a: "?E ! k = OrderSubmitted s m \<or> ?E ! k = OrderFailed s m"
      from k j have kl: "k < length rows" by simp
      from decision_sound [OF kl a]
      have "symbol_of U (rows ! k) = s" "row_check U bp (rows ! k) = Inr m" by simp_all
      with first k show False by blast
    qed
    then show ?thesis by simp
  qed
  then have notS: "s \<notin> ?S" by blast
  have "?E ! j = row_outcome U B bp (idx + j) (rows ! j) ?S" by (rule trace_event [OF j])
  also have "\<dots> = (if B (idx + j) s n then OrderSubmitted s n else OrderFailed s n)"
    using sy ne rc notS by (simp add: row_outcome_def)
  finally have here: "?E ! j = (if B (idx + j) s n then OrderSubmitted s n else OrderFailed s n)" .
  have others: "?E ! k \<noteq> OrderSubmitted s m \<and> ?E ! k \<noteq> OrderFailed s m"
    if b: "B (idx + j) s n" and k: "k < length rows" and kj: "k \<noteq> j" for k m
  proof (cases "k < j")
    case True
    then show ?thesis by (rule before)
  next
    case False
    with kj have jk: "j < k" by simp
    from here b have "?E ! j = OrderSubmitted s n" by simp
    from after_success [OF jk k this] show ?thesis by blast
  qed
  from here before others show ?thesis by blast
qed

text \<open>
  Claim C2, as amended. In every run, once the submission of an order for a symbol has
  succeeded, no later row emits an order for that symbol, and every later row with that
  normalized symbol is skipped as a duplicate. An order is emitted only for a row that passes all
  validation steps, with that row's own rounded notional. The first row of a symbol
  that passes them always emits an order, no row before it does, and when that
  submission succeeds it is the only order of the run for the symbol.
\<close>

theorem C2_dedup_after_success:
  "\<exists>st'. run_bot U B bp sheet = Inr st' \<and> length (events st') = length (tl sheet)
     \<and> (\<forall>i j s n. i < j \<and> j < length (tl sheet) \<and> events st' ! i = OrderSubmitted s n \<longrightarrow>
          (\<forall>m. events st' ! j \<noteq> OrderSubmitted s m \<and> events st' ! j \<noteq> OrderFailed s m)
          \<and> (symbol_of U (tl sheet ! j) = s \<longrightarrow> events st' ! j = DuplicateSymbol s))
     \<and> (\<forall>j s n. j < length (tl sheet)
            \<and> (events st' ! j = OrderSubmitted s n \<or> events st' ! j = OrderFailed s n) \<longrightarrow>
          symbol_of U (tl sheet ! j) = s \<and> s \<noteq> [] \<and> row_check U bp (tl sheet ! j) = Inr n)
     \<and> (\<forall>j s n. j < length (tl sheet) \<and> symbol_of U (tl sheet ! j) = s \<and> s \<noteq> []
            \<and> row_check U bp (tl sheet ! j) = Inr n
            \<and> (\<forall>i<j. symbol_of U (tl sheet ! i) = s
                   \<longrightarrow> (\<forall>m. row_check U bp (tl sheet ! i) \<noteq> Inr m)) \<longrightarrow>
          events st' ! j = (if B (2 + j) s n then OrderSubmitted s n else OrderFailed s n)
          \<and> (\<forall>k<j. \<forall>m. events st' ! k \<noteq> OrderSubmitted s m \<and> events st' ! k \<noteq> OrderFailed s m)
          \<and> (B (2 + j) s n \<longrightarrow>
               (\<forall>k<length (tl sheet). k \<noteq> j \<longrightarrow>
                  (\<forall>m. events st' ! k \<noteq> OrderSubmitted s m
                     \<and> events st' ! k \<noteq> OrderFailed s m))))"
proof (intro exI conjI allI impI)
  show "run_bot U B bp sheet = Inr (run_steps U B bp 2 (tl sheet) initial_state)"
    by (rule run_bot_steps)
  show "length (events (run_steps U B bp 2 (tl sheet) initial_state)) = length (tl sheet)"
    by (simp add: run_steps_events_length initial_state_def)
next
  fix i j s n m
  assume h: "i < j \<and> j < length (tl sheet)
     \<and> events (run_steps U B bp 2 (tl sheet) initial_state) ! i = OrderSubmitted s n"
  then have ij: "i < j" and j: "j < length (tl sheet)"
    and i: "events (run_steps U B bp 2 (tl sheet) initial_state) ! i = OrderSubmitted s n"
    by simp_all
  note r = after_success [OF ij j i]
  from r show "events (run_steps U B bp 2 (tl sheet) initial_state) ! j \<noteq> OrderSubmitted s m"
    by blast
  from r show "events (run_steps U B bp 2 (tl sheet) initial_state) ! j \<noteq> OrderFailed s m"
    by blast
  assume "symbol_of U (tl sheet ! j) = s"
  with r show "events (run_steps U B bp 2 (tl sheet) initial_state) ! j = DuplicateSymbol s"
    by blast
next
  fix j s n
  assume h: "j < length (tl sheet)
     \<and> (events (run_steps U B bp 2 (tl sheet) initial_state) ! j = OrderSubmitted s n
        \<or> events (run_steps U B bp 2 (tl sheet) initial_state) ! j = OrderFailed s n)"
  then have j: "j < length (tl sheet)"
    and d: "events (run_steps U B bp 2 (tl sheet) initial_state) ! j = OrderSubmitted s n
        \<or> events (run_steps U B bp 2 (tl sheet) initial_state) ! j = OrderFailed s n"
    by simp_all
  note r = decision_sound [OF j d]
  from r show "symbol_of U (tl sheet ! j) = s" by simp
  from r show "s \<noteq> []" by simp
  from r show "row_check U bp (tl sheet ! j) = Inr n" by simp
next
  fix j s n
  assume h: "j < length (tl sheet) \<and> symbol_of U (tl sheet ! j) = s \<and> s \<noteq> []
            \<and> row_check U bp (tl sheet ! j) = Inr n
            \<and> (\<forall>i<j. symbol_of U (tl sheet ! i) = s
                   \<longrightarrow> (\<forall>m. row_check U bp (tl sheet ! i) \<noteq> Inr m))"
  then have j: "j < length (tl sheet)" and sy: "symbol_of U (tl sheet ! j) = s" and ne: "s \<noteq> []"
    and rc: "row_check U bp (tl sheet ! j) = Inr n"
    and first: "\<forall>i<j. symbol_of U (tl sheet ! i) = s
                   \<longrightarrow> (\<forall>m. row_check U bp (tl sheet ! i) \<noteq> Inr m)"
    by simp_all
  note r = first_qualifying [OF j sy ne rc first, where B = B and idx = 2]
  from r show "events (run_steps U B bp 2 (tl sheet) initial_state) ! j
      = (if B (2 + j) s n then OrderSubmitted s n else OrderFailed s n)" by blast
  {
    fix k m
    assume "k < j"
    with r show "events (run_steps U B bp 2 (tl sheet) initial_state) ! k \<noteq> OrderSubmitted s m"
      by blast
    from \<open>k < j\<close> r
    show "events (run_steps U B bp 2 (tl sheet) initial_state) ! k \<noteq> OrderFailed s m"
      by blast
  }
  {
    fix k m
    assume "B (2 + j) s n" "k < length (tl sheet)" "k \<noteq> j"
    with r show "events (run_steps U B bp 2 (tl sheet) initial_state) ! k \<noteq> OrderSubmitted s m"
      by blast
    from \<open>B (2 + j) s n\<close> \<open>k < length (tl sheet)\<close> \<open>k \<noteq> j\<close> r
    show "events (run_steps U B bp 2 (tl sheet) initial_state) ! k \<noteq> OrderFailed s m"
      by blast
  }
qed

section \<open>Concrete runs\<close>

text \<open>
  A row whose order the brokerage refuses, and a sheet of three rows with the same
  symbol where the brokerage refuses the first order only.
\<close>

lemma plain_row_fails:
  "process_row example_tables broker_fails_at_2 (Finite 20) 2 plain_row initial_state =
     Inr (log_event (OrderFailed (ascii ''AAA'') (Finite 1)) initial_state)"
  by code_simp

lemma dup_sheet_run:
  "run_bot example_tables broker_fails_at_2 (Finite 100000) dup_sheet =
     Inr \<lparr>seen_symbols = {ascii ''AAA''}, orders_submitted = 1,
          events = [OrderFailed (ascii ''AAA'') (Finite 11000),
                    OrderSubmitted (ascii ''AAA'') (Finite 11000),
                    DuplicateSymbol (ascii ''AAA'')]\<rparr>"
  by code_simp

lemma dup_sheet_rows:
  "length (tl dup_sheet) = 3"
  "symbol_of example_tables (tl dup_sheet ! 2) = ascii ''AAA''"
  "symbol_of example_tables (tl dup_sheet ! 0) = ascii ''AAA''"
  "row_check example_tables (Finite 100000) (tl dup_sheet ! 0) = Inr (Finite 11000)"
  "ascii ''AAA'' \<noteq> []"
  by code_simp+

theorem C9_witness:
  "process_row example_tables broker_fails_at_2 (Finite 20) 2 plain_row initial_state =
     Inr (log_event (OrderFailed (ascii ''AAA'') (Finite 1)) initial_state)
   \<and> events (log_event (OrderFailed (ascii ''AAA'') (Finite 1)) initial_state) =
       events initial_state @ [OrderFailed (ascii ''AAA'') (Finite 1)]
   \<and> \<not> broker_fails_at_2 2 (ascii ''AAA'') (Finite 1)
   \<and> (\<exists>st'. run_rows example_tables broker_fails_at_2 (Finite 20) 2 [plain_row, plain_row]
               initial_state = Inr st'
            \<and> length (events st') =
                length (events (log_event (OrderFailed (ascii ''AAA'') (Finite 1)) initial_state))
                + length [plain_row])"
proof -
  have e: "events (log_event (OrderFailed (ascii ''AAA'') (Finite 1)) initial_state) =
       events initial_state @ [OrderFailed (ascii ''AAA'') (Finite 1)]"
    by (simp add: log_event_def)
  have "process_row example_tables broker_fails_at_2 (Finite 20) 2 plain_row initial_state =
     Inr (log_event (OrderFailed (ascii ''AAA'') (Finite 1)) initial_state)
   \<and> events (log_event (OrderFailed (ascii ''AAA'') (Finite 1)) initial_state) =
       events initial_state @ [OrderFailed (ascii ''AAA'') (Finite 1)]"
    using plain_row_fails e by (rule conjI)
  from C9_failure_isolated [where U = example_tables and B = broker_fails_at_2
      and bp = "Finite 20" and idx = 2 and row = plain_row and st = initial_state
      and ?st1.0 = "log_event (OrderFailed (ascii ''AAA'') (Finite 1)) initial_state"
      and s = "ascii ''AAA''" and n = "Finite 1" and rest = "[plain_row]",
      THEN conjunct2, THEN conjunct2, rule_format, OF this]
  have r: "\<not> broker_fails_at_2 2 (ascii ''AAA'') (Finite 1)
   \<and> (\<exists>st'. run_rows example_tables broker_fails_at_2 (Finite 20) 2 [plain_row, plain_row]
               initial_state = Inr st'
            \<and> length (events st') =
                length (events (log_event (OrderFailed (ascii ''AAA'') (Finite 1)) initial_state))
                + length [plain_row])"
    by blast
  show ?thesis by (intro conjI plain_row_fails e r [THEN conjunct1] r [THEN conjunct2])
qed

theorem C10_witness:
  "(1::nat) \<le> length [plain_row, plain_row]
   \<and> (\<exists>st. run_rows example_tables broker_fails_at_2 (Finite 20) 2 (take 1 [plain_row, plain_row])
              initial_state = Inr st
           \<and> orders_submitted st = card (seen_symbols st))
   \<and> process_row example_tables broker_fails_at_2 (Finite 20) 2 plain_row initial_state =
       Inr (log_event (OrderFailed (ascii ''AAA'') (Finite 1)) initial_state)
   \<and> str_upper example_tables (str_strip (cell plain_row 0)) = ascii ''AAA''
   \<and> ascii ''AAA'' \<notin> seen_symbols (log_event (OrderFailed (ascii ''AAA'') (Finite 1)) initial_state)
   \<and> (\<exists>st2 ev. process_row example_tables broker_fails_at_2 (Finite 20) 3 plain_row
                  (log_event (OrderFailed (ascii ''AAA'') (Finite 1)) initial_state) = Inr st2
            \<and> events st2 =
                events (log_event (OrderFailed (ascii ''AAA'') (Finite 1)) initial_state) @ [ev]
            \<and> ev \<noteq> DuplicateSymbol (ascii ''AAA''))"
proof -
  have k: "(1::nat) \<le> length [plain_row, plain_row]" by simp
  have e: "events (log_event (OrderFailed (ascii ''AAA'') (Finite 1)) initial_state) =
       events initial_state @ [OrderFailed (ascii ''AAA'') (Finite 1)]"
    by (simp add: log_event_def)
  note sy = plain_row_facts(1)
  note inst = C10_count_equals_seen [where k = 1 and rows = "[plain_row, plain_row]"
      and U = example_tables and B = broker_fails_at_2 and bp = "Finite 20" and idx = 2
      and row = plain_row and st = initial_state
      and ?st1.0 = "log_event (OrderFailed (ascii ''AAA'') (Finite 1)) initial_state"
      and s = "ascii ''AAA''" and n = "Finite 1" and ?row2.0 = plain_row and ?idx2.0 = 3]
  from inst [THEN conjunct1, rule_format, OF k]
  have a: "\<exists>st. run_rows example_tables broker_fails_at_2 (Finite 20) 2
                  (take 1 [plain_row, plain_row]) initial_state = Inr st
           \<and> orders_submitted st = card (seen_symbols st)"
    by blast
  have "process_row example_tables broker_fails_at_2 (Finite 20) 2 plain_row initial_state =
       Inr (log_event (OrderFailed (ascii ''AAA'') (Finite 1)) initial_state)
     \<and> events (log_event (OrderFailed (ascii ''AAA'') (Finite 1)) initial_state) =
       events initial_state @ [OrderFailed (ascii ''AAA'') (Finite 1)]
     \<and> str_upper example_tables (str_strip (cell plain_row 0)) = ascii ''AAA''"
    by (intro conjI plain_row_fails e sy)
  note c = inst [THEN conjunct2, THEN conjunct2, rule_format, OF this]
  show ?thesis
    by (intro conjI k a plain_row_fails sy c [THEN conjunct1] c [THEN conjunct2])
qed

theorem C2_witness:
  "\<exists>st'. run_bot example_tables broker_fails_at_2 (Finite 100000) dup_sheet = Inr st'
     \<and> (1::nat) < 2 \<and> 2 < length (tl dup_sheet)
     \<and> events st' ! 1 = OrderSubmitted (ascii ''AAA'') (Finite 11000)
     \<and> symbol_of example_tables (tl dup_sheet ! 2) = ascii ''AAA''
     \<and> events st' ! 2 = DuplicateSymbol (ascii ''AAA'')
     \<and> row_check example_tables (Finite 100000) (tl dup_sheet ! 0) = Inr (Finite 11000)
     \<and> events st' ! 0 = OrderFailed (ascii ''AAA'') (Finite 11000)"
proof -
  from C2_dedup_after_success [of example_tables broker_fails_at_2 "Finite 100000" dup_sheet]
  obtain st' where run: "run_bot example_tables broker_fails_at_2 (Finite 100000) dup_sheet = Inr st'"
    and p1: "\<forall>i j s n. i < j \<and> j < length (tl dup_sheet) \<and> events st' ! i = OrderSubmitted s n \<longrightarrow>
          (\<forall>m. events st' ! j \<noteq> OrderSubmitted s m \<and> events st' ! j \<noteq> OrderFailed s m)
          \<and> (symbol_of example_tables (tl dup_sheet ! j) = s \<longrightarrow> events st' ! j = DuplicateSymbol s)"
    and p4: "\<forall>j s n. j < length (tl dup_sheet) \<and> symbol_of example_tables (tl dup_sheet ! j) = s
            \<and> s \<noteq> []
            \<and> row_check example_tables (Finite 100000) (tl dup_sheet ! j) = Inr n
            \<and> (\<forall>i<j. symbol_of example_tables (tl dup_sheet ! i) = s
                   \<longrightarrow> (\<forall>m. row_check example_tables (Finite 100000) (tl dup_sheet ! i) \<noteq> Inr m)) \<longrightarrow>
          events st' ! j = (if broker_fails_at_2 (2 + j) s n then OrderSubmitted s n
                            else OrderFailed s n)
          \<and> (\<forall>k<j. \<forall>m. events st' ! k \<noteq> OrderSubmitted s m \<and> events st' ! k \<noteq> OrderFailed s m)
          \<and> (broker_fails_at_2 (2 + j) s n \<longrightarrow>
               (\<forall>k<length (tl dup_sheet). k \<noteq> j \<longrightarrow>
                  (\<forall>m. events st' ! k \<noteq> OrderSubmitted s m
                     \<and> events st' ! k \<noteq> OrderFailed s m)))"
    by (elim exE conjE)
  note rows = dup_sheet_rows
  from run have st: "st' = \<lparr>seen_symbols = {ascii ''AAA''}, orders_submitted = 1,
          events = [OrderFailed (ascii ''AAA'') (Finite 11000),
                    OrderSubmitted (ascii ''AAA'') (Finite 11000),
                    DuplicateSymbol (ascii ''AAA'')]\<rparr>"
    by (simp only: dup_sheet_run sum.inject)
  have e1: "events st' ! 1 = OrderSubmitted (ascii ''AAA'') (Finite 11000)"
    unfolding st by simp
  have l1: "(1::nat) < 2" by simp
  have l2: "2 < length (tl dup_sheet)" unfolding rows(1) by simp
  have h1: "(1::nat) < 2 \<and> 2 < length (tl dup_sheet)
      \<and> events st' ! 1 = OrderSubmitted (ascii ''AAA'') (Finite 11000)"
    by (intro conjI l1 l2 e1)
  from p1 [rule_format, OF h1, THEN conjunct2, rule_format, OF rows(2)]
  have e2: "events st' ! 2 = DuplicateSymbol (ascii ''AAA'')" .
  have l0: "0 < length (tl dup_sheet)" unfolding rows(1) by simp
  have v: "\<forall>i<0. symbol_of example_tables (tl dup_sheet ! i) = ascii ''AAA''
                   \<longrightarrow> (\<forall>m. row_check example_tables (Finite 100000) (tl dup_sheet ! i) \<noteq> Inr m)"
    by simp
  have h4: "0 < length (tl dup_sheet) \<and> symbol_of example_tables (tl dup_sheet ! 0) = ascii ''AAA''
            \<and> ascii ''AAA'' \<noteq> []
            \<and> row_check example_tables (Finite 100000) (tl dup_sheet ! 0) = Inr (Finite 11000)
            \<and> (\<forall>i<0. symbol_of example_tables (tl dup_sheet ! i) = ascii ''AAA''
                   \<longrightarrow> (\<forall>m. row_check example_tables (Finite 100000) (tl dup_sheet ! i) \<noteq> Inr m))"
    by (intro conjI l0 rows(3) rows(5) rows(4) v)
  from p4 [rule_format, OF h4, THEN conjunct1]
  have e0: "events st' ! 0 = OrderFailed (ascii ''AAA'') (Finite 11000)"
    by (simp add: broker_fails_at_2_def)
  show ?thesis
    by (rule exI [of _ st']) (intro conjI run l1 l2 e1 rows(2) e2 rows(4) e0)
qed

text \<open>
  The stronger statement, exactly one order for a symbol and every later row with
  that symbol skipped, fails on this sheet: the order of sheet row 2 is refused, the
  symbol stays unseen, and sheet row 3 emits a second order for the same symbol.
\<close>

theorem C2_counterexample:
  "run_bot example_tables broker_fails_at_2 (Finite 100000) dup_sheet =
     Inr \<lparr>seen_symbols = {ascii ''AAA''}, orders_submitted = 1,
          events = [OrderFailed (ascii ''AAA'') (Finite 11000),
                    OrderSubmitted (ascii ''AAA'') (Finite 11000),
                    DuplicateSymbol (ascii ''AAA'')]\<rparr>"
  by (rule dup_sheet_run)

end
